theory Spec2Isabelle
  imports Complex_Main
begin

section \<open>Conventions of the embedding\<close>

text \<open>
  The development embeds \<^verbatim>\<open>convolution/python/coup_conv.py\<close>. Floating point numbers are
  idealised as \<^typ>\<open>real\<close>: arithmetic is exact and non-finite values do not exist. NumPy
  arrays are lists (of lists); a flux file holds one time record, so the leading time axis
  of length one of \<^verbatim>\<open>flux\<close> is dropped and a flux is a two-dimensional grid. Every Python
  exception is a value of \<open>py_error\<close>. Since the rings are mutated in place, a failing
  \<^verbatim>\<open>convolve\<close> returns the registry as it stands when the exception leaves the function.
\<close>

datatype py_error =
  IndexError | KeyError | ValueError | TypeError | UnboundLocalError | ZeroDivisionError

section \<open>Array primitives\<close>

text \<open>Indexing one axis of length \<open>n\<close>: negative indices count from the end.\<close>

definition np_index :: "nat \<Rightarrow> int \<Rightarrow> nat option" where
  "np_index n i =
     (if 0 \<le> i \<and> i < int n then Some (nat i)
      else if - int n \<le> i \<and> i < 0 then Some (nat (int n + i))
      else None)"

text \<open>Broadcasting of two one-dimensional arrays: equal lengths, or one of length one.\<close>

definition broadcast :: "'a list \<Rightarrow> 'b list \<Rightarrow> ('a \<times> 'b) list option" where
  "broadcast xs ys =
     (if length xs = length ys then Some (zip xs ys)
      else if length xs = 1 then Some (map (\<lambda>b. (hd xs, b)) ys)
      else if length ys = 1 then Some (map (\<lambda>a. (a, hd ys)) xs)
      else None)"

type_synonym grid = "real list list"

definition grid_at :: "grid \<Rightarrow> int \<Rightarrow> int \<Rightarrow> real option" where
  "grid_at g r c =
     (case np_index (length g) r of
        None \<Rightarrow> None
      | Some j \<Rightarrow>
          (case np_index (length (g ! j)) c of
             None \<Rightarrow> None
           | Some k \<Rightarrow> Some (g ! j ! k)))"

text \<open>\<^verbatim>\<open>g[ys, xs]\<close> with two index arrays.\<close>

definition gather :: "grid \<Rightarrow> int list \<Rightarrow> int list \<Rightarrow> real list option" where
  "gather g ys xs =
     (case broadcast ys xs of
        None \<Rightarrow> None
      | Some ps \<Rightarrow> those (map (\<lambda>(r, c). grid_at g r c) ps))"

text \<open>\<^verbatim>\<open>(vals * uh).sum(axis=1)\<close> for \<open>vals\<close> of shape (1, K) and \<open>uh\<close> of shape (L, K).\<close>

definition contribution :: "real list \<Rightarrow> real list list \<Rightarrow> real list option" where
  "contribution vals m =
     those (map (\<lambda>row. map_option (\<lambda>ps. sum_list (map (\<lambda>(a, b). a * b) ps))
                               (broadcast vals row)) m)"

text \<open>\<^verbatim>\<open>r += c\<close>: the right operand is broadcast to the shape of the left one.\<close>

definition iadd :: "real list \<Rightarrow> real list \<Rightarrow> real list option" where
  "iadd r c =
     (if length c = length r then Some (map (\<lambda>(a, b). a + b) (zip r c))
      else if length c = 1 then Some (map (\<lambda>a. a + hd c) r)
      else None)"

definition shift :: "'a list \<Rightarrow> int \<Rightarrow> py_error + 'a list" where
  "shift l offset =
     (if length l = 0 then Inl ZeroDivisionError
      else let k = nat (offset mod int (length l)) in Inr (drop k l @ take k l))"

datatype ndarray = A1 "real list" | A2 "real list list" | A3 "real list list list"

datatype shape = Shape1 nat | Shape2 nat nat

definition zeros :: "shape \<Rightarrow> ndarray" where
  "zeros s = (case s of Shape1 n \<Rightarrow> A1 (replicate n 0)
                       | Shape2 m n \<Rightarrow> A2 (replicate m (replicate n 0)))"

definition zeros_state :: "nat \<Rightarrow> shape \<Rightarrow> ndarray" where
  "zeros_state l s = (case s of Shape1 n \<Rightarrow> A2 (replicate l (replicate n 0))
                               | Shape2 m n \<Rightarrow> A3 (replicate l (replicate m (replicate n 0))))"

text \<open>\<^verbatim>\<open>a[i] = v\<close> on a one-dimensional array, \<^verbatim>\<open>a[r, c] = v\<close> on a two-dimensional one.\<close>

definition set_item1 :: "ndarray \<Rightarrow> int \<Rightarrow> real \<Rightarrow> ndarray option" where
  "set_item1 a i v =
     (case a of
        A1 xs \<Rightarrow> (case np_index (length xs) i of None \<Rightarrow> None | Some k \<Rightarrow> Some (A1 (xs[k := v])))
      | _ \<Rightarrow> None)"

definition set_item2 :: "ndarray \<Rightarrow> int \<Rightarrow> int \<Rightarrow> real \<Rightarrow> ndarray option" where
  "set_item2 a r c v =
     (case a of
        A2 g \<Rightarrow>
          (case np_index (length g) r of
             None \<Rightarrow> None
           | Some j \<Rightarrow>
               (case np_index (length (g ! j)) c of
                  None \<Rightarrow> None
                | Some k \<Rightarrow> Some (A2 (g[j := (g ! j)[k := v]]))))
      | _ \<Rightarrow> None)"

text \<open>
  \<^verbatim>\<open>a[:, i] = vs\<close> and \<^verbatim>\<open>a[:, r, c] = vs\<close>: the index is checked first (IndexError), then
  \<open>vs\<close> is broadcast to the length of the leading axis (ValueError).
\<close>

definition fit :: "nat \<Rightarrow> real list \<Rightarrow> real list option" where
  "fit n vs =
     (if length vs = n then Some vs
      else if length vs = 1 then Some (replicate n (hd vs))
      else None)"

definition set_col1 :: "ndarray \<Rightarrow> int \<Rightarrow> real list \<Rightarrow> py_error + ndarray" where
  "set_col1 a i vs =
     (case a of
        A2 m \<Rightarrow>
          (if list_all (\<lambda>row. np_index (length row) i \<noteq> None) m then
             (case fit (length m) vs of
                None \<Rightarrow> Inl ValueError
              | Some ws \<Rightarrow>
                  Inr (A2 (map (\<lambda>(row, w). row[the (np_index (length row) i) := w]) (zip m ws))))
           else Inl IndexError)
      | _ \<Rightarrow> Inl IndexError)"

definition set_col2 :: "ndarray \<Rightarrow> int \<Rightarrow> int \<Rightarrow> real list \<Rightarrow> py_error + ndarray" where
  "set_col2 a r c vs =
     (case a of
        A3 m \<Rightarrow>
          (if list_all (\<lambda>g. set_item2 (A2 g) r c 0 \<noteq> None) m then
             (case fit (length m) vs of
                None \<Rightarrow> Inl ValueError
              | Some ws \<Rightarrow>
                  Inr (A3 (map (\<lambda>(g, w). case set_item2 (A2 g) r c w of
                                            Some (A2 g') \<Rightarrow> g' | _ \<Rightarrow> g) (zip m ws))))
           else Inl IndexError)
      | _ \<Rightarrow> Inl IndexError)"

section \<open>The registry of outlets\<close>

text \<open>
  One entry of \<^verbatim>\<open>point_dict\<close>. The key \<^verbatim>\<open>'ring'\<close> is absent until a ring is stored, hence
  the option. \<^verbatim>\<open>point_dict\<close> is an \<^verbatim>\<open>OrderedDict\<close>: an association list in insertion order.
\<close>

record point =
  time :: "real list"
  xi :: "int list"
  yi :: "int list"
  outlet_x :: int
  outlet_y :: int
  lat :: real
  lon :: real
  uh :: "real list list"
  now :: int
  ring :: "real list option"

type_synonym registry = "((int \<times> int) \<times> point) list"

record time_dict =
  time_step :: real
  t_units :: string
  cal :: string
  long_name :: string
  output_frequency :: "string option"
  out_state_time :: "real list option"

section \<open>convolve\<close>

text \<open>The body of the loop of \<^verbatim>\<open>convolve\<close> for the \<open>i\<close>-th outlet, after the \<^verbatim>\<open>i == 0\<close> block.\<close>

definition convolve_point ::
  "shape \<Rightarrow> grid \<Rightarrow> bool \<Rightarrow> nat \<Rightarrow> int \<times> int \<Rightarrow> point \<Rightarrow> ndarray \<Rightarrow> ndarray option \<Rightarrow>
   (py_error \<times> point) + (point \<times> ndarray \<times> ndarray option)" where
  "convolve_point shp flux return_state i pt d out_flow out_state =
     (case ring d of
        None \<Rightarrow> Inl (KeyError, d)
      | Some r0 \<Rightarrow>
     (case gather flux (yi d) (xi d) of
        None \<Rightarrow> Inl (IndexError, d)
      | Some vals \<Rightarrow>
     (case contribution vals (uh d) of
        None \<Rightarrow> Inl (ValueError, d)
      | Some c \<Rightarrow>
     (case iadd r0 c of
        None \<Rightarrow> Inl (ValueError, d)
      | Some r1 \<Rightarrow>
     (case r1 of
        [] \<Rightarrow> Inl (IndexError, d\<lparr>ring := Some r1\<rparr>)
      | v # _ \<Rightarrow>
     (case (case shp of
              Shape1 _ \<Rightarrow> set_item1 out_flow (int i) v
            | Shape2 _ _ \<Rightarrow> set_item2 out_flow (outlet_y d) (outlet_x d) v) of
        None \<Rightarrow> Inl (IndexError, d\<lparr>ring := Some r1\<rparr>)
      | Some out_flow' \<Rightarrow>
     (case np_index (length r1) (now d) of
        None \<Rightarrow> Inl (IndexError, d\<lparr>ring := Some r1\<rparr>)
      | Some k \<Rightarrow>
     (case shift (r1[k := 0]) 1 of
        Inl e \<Rightarrow> Inl (e, d\<lparr>ring := Some (r1[k := 0])\<rparr>)
      | Inr r3 \<Rightarrow>
     (if \<not> return_state then Inr (d\<lparr>ring := Some r3\<rparr>, out_flow', out_state)
      else
     (case out_state of
        None \<Rightarrow> Inl (TypeError, d\<lparr>ring := Some r3\<rparr>)
      | Some st \<Rightarrow>
     (case (case shp of
              Shape1 _ \<Rightarrow> set_col1 st (int i) r3
            | Shape2 _ _ \<Rightarrow> set_col2 st (fst pt) (snd pt) r3) of
        Inl e \<Rightarrow> Inl (e, d\<lparr>ring := Some r3\<rparr>)
      | Inr st' \<Rightarrow> Inr (d\<lparr>ring := Some r3\<rparr>, out_flow', Some st'))))))))))))"

fun convolve_loop ::
  "shape \<Rightarrow> grid \<Rightarrow> bool \<Rightarrow> nat \<Rightarrow> registry \<Rightarrow> ndarray \<Rightarrow> ndarray option \<Rightarrow>
   (py_error \<times> registry) + (registry \<times> ndarray \<times> ndarray option)" where
  "convolve_loop shp flux rs i [] out_flow out_state = Inr ([], out_flow, out_state)"
| "convolve_loop shp flux rs i ((pt, d) # rest) out_flow out_state =
     (case convolve_point shp flux rs i pt d out_flow out_state of
        Inl (e, d') \<Rightarrow> Inl (e, (pt, d') # rest)
      | Inr (d', out_flow', out_state') \<Rightarrow>
          (case convolve_loop shp flux rs (Suc i) rest out_flow' out_state' of
             Inl (e, rest') \<Rightarrow> Inl (e, (pt, d') # rest')
           | Inr (rest', out_flow'', out_state'') \<Rightarrow>
               Inr ((pt, d') # rest', out_flow'', out_state'')))"

text \<open>
  \<^verbatim>\<open>convolve\<close>. \<^verbatim>\<open>out_state\<close> and \<^verbatim>\<open>out_state_time\<close> are bound in the first iteration only,
  from the first outlet; with an empty registry the \<^verbatim>\<open>return\<close> reads an unbound local.
\<close>

definition convolve ::
  "registry \<Rightarrow> time_dict \<Rightarrow> grid \<Rightarrow> bool \<Rightarrow> shape \<Rightarrow>
   (py_error \<times> registry) + (registry \<times> ndarray \<times> ndarray option \<times> time_dict)" where
  "convolve point_dict td flux return_state shp =
     (case point_dict of
        [] \<Rightarrow> Inl (UnboundLocalError, [])
      | (pt0, d0) # _ \<Rightarrow>
          (let out_state = (if return_state then Some (zeros_state (length (uh d0)) shp) else None);
               td' = td\<lparr>out_state_time :=
                         (if return_state then Some (map (\<lambda>t. t + time_step td) (time d0))
                          else None)\<rparr>
           in case convolve_loop shp flux return_state 0 point_dict (zeros shp) out_state of
                Inl (e, pd) \<Rightarrow> Inl (e, pd)
              | Inr (pd, out_flow, out_state') \<Rightarrow> Inr (pd, out_flow, out_state', td')))"

text \<open>
  The calls of \<^verbatim>\<open>convolve\<close> made by the loop of \<^verbatim>\<open>run\<close> for a sequence of fluxes, none of
  them a state timestep: the emitted \<^verbatim>\<open>out_flow\<close> of every timestep, in order.
\<close>

fun convolve_seq ::
  "registry \<Rightarrow> time_dict \<Rightarrow> grid list \<Rightarrow> shape \<Rightarrow>
   (py_error \<times> registry) + (registry \<times> ndarray list)" where
  "convolve_seq pd td [] shp = Inr (pd, [])"
| "convolve_seq pd td (flux # fs) shp =
     (case convolve pd td flux False shp of
        Inl err \<Rightarrow> Inl err
      | Inr (pd', out_flow, _, td') \<Rightarrow>
          (case convolve_seq pd' td' fs shp of
             Inl err \<Rightarrow> Inl err
           | Inr (pd'', outs) \<Rightarrow> Inr (pd'', out_flow # outs)))"

section \<open>Constants of the module\<close>

definition earthRadius :: real where "earthRadius = 6371220"
definition waterDensity :: real where "waterDensity = 1000"
definition metersPerKm :: real where "metersPerKm = 1000"
definition metersPerMile :: real where "metersPerMile = 160934 / 100"
definition meters2PerAcre :: real where "meters2PerAcre = 4046856 / 1000"
definition hoursPerDay :: real where "hoursPerDay = 24"
definition secsPerHour :: real where "secsPerHour = 3600"
definition secsPerDay :: real where "secsPerDay = hoursPerDay * secsPerHour"
definition mmPerMeter :: real where "mmPerMeter = 1000"
definition cmPerMeter :: real where "cmPerMeter = 100"

section \<open>Inputs, outputs and printed messages\<close>

text \<open>What the functions print, as values; the progress lines of the verbose option are left out.\<close>

datatype message =
    UnknownAreaUnits string
  | NoGridFile
  | MakingStatefile string
  | UnexpectedFrequency string
  | UnexpectedUnits string
  | ReadingInitialState

text \<open>\<^verbatim>\<open>out_dict['units']\<close> is only ever stored by \<^verbatim>\<open>init\<close>, as one of two strings.\<close>

datatype flow_units = KgM2S | M3S

record counts =
  timesteps :: nat
  out_files :: nat
  state_files :: nat
  restart_files :: nat
  points :: nat

record outputs =
  out_type :: string
  out_units :: string
  state :: "string list option"

record out_dict =
  units :: "flow_units option"
  longitudes :: "grid option"
  latitudes :: "grid option"
  lats :: "real list"
  lons :: "real list"
  outlet_xs :: "int list"
  outlet_ys :: "int list"

text \<open>The contents of the files read: the grid file, a unit hydrograph file, a flux file.\<close>

record grid_file =
  gf_area_units :: string
  gf_area :: grid
  gf_xc :: grid
  gf_yc :: grid

record uh_file =
  uf_time_units :: string
  uf_time :: "real list"
  uf_xi :: "int list"
  uf_yi :: "int list"
  uf_outlet_x :: int
  uf_outlet_y :: int
  uf_outlet_lat :: real
  uf_outlet_lon :: real
  uf_unit_hydrograph :: "real list list"
  uf_fraction :: "real list"

record flux_file =
  ff_name :: string
  ff_time :: real
  ff_time_units :: string
  ff_calendar :: string
  ff_long_name :: string
  ff_output_frequency :: string
  ff_output_mode :: string
  ff_runoff_units :: string
  ff_Runoff :: grid
  ff_Baseflow :: grid

text \<open>
  A state file as \<^verbatim>\<open>write_output\<close> writes it and \<^verbatim>\<open>make_point_dict\<close> reads it: the variable
  \<^verbatim>\<open>Streamflow\<close> and, in the flat layout, the outlet indices \<^verbatim>\<open>xi\<close> and \<^verbatim>\<open>yi\<close>.
\<close>

record state_file =
  sf_Streamflow :: ndarray
  sf_xi :: "int list"
  sf_yi :: "int list"
  sf_time :: "real list option"

datatype written =
    StreamflowFile string ndarray real
  | StateFile string state_file
  | RestartFile string "string list" string

section \<open>make\_point\_dict\<close>

text \<open>Elementwise product with broadcasting, of two vectors and of a matrix with a vector.\<close>

definition bmul :: "real list \<Rightarrow> real list \<Rightarrow> real list option" where
  "bmul xs ys = map_option (map (\<lambda>(a, b). a * b)) (broadcast xs ys)"

definition rows_mul :: "real list list \<Rightarrow> real list \<Rightarrow> real list list option" where
  "rows_mul m v = those (map (\<lambda>row. bmul row v) m)"

text \<open>
  The assignment of \<^verbatim>\<open>d['uh']\<close>; the operands are evaluated from left to right. A division
  by an outlet area of zero does not raise in NumPy; here it yields 0.
\<close>

definition make_uh ::
  "uh_file \<Rightarrow> grid \<Rightarrow> flow_units \<Rightarrow> real \<Rightarrow> py_error + real list list" where
  "make_uh f area u rho_h20 =
     (case rows_mul (uf_unit_hydrograph f) (uf_fraction f) of
        None \<Rightarrow> Inl ValueError
      | Some m1 \<Rightarrow>
     (case gather area (uf_yi f) (uf_xi f) of
        None \<Rightarrow> Inl IndexError
      | Some a \<Rightarrow>
     (case rows_mul m1 a of
        None \<Rightarrow> Inl ValueError
      | Some m2 \<Rightarrow>
     (case u of
        M3S \<Rightarrow> Inr m2
      | KgM2S \<Rightarrow>
          (case grid_at area (uf_outlet_y f) (uf_outlet_x f) of
             None \<Rightarrow> Inl IndexError
           | Some a0 \<Rightarrow> Inr (map (map (\<lambda>v. v * rho_h20 / a0)) m2))))))"

text \<open>\<^verbatim>\<open>point_dict[key] = d\<close> on an \<^verbatim>\<open>OrderedDict\<close>: a known key keeps its position.\<close>

fun od_set :: "('k \<times> 'v) list \<Rightarrow> 'k \<Rightarrow> 'v \<Rightarrow> ('k \<times> 'v) list" where
  "od_set [] k v = [(k, v)]"
| "od_set ((k', v') # kvs) k v = (if k' = k then (k, v) # kvs else (k', v') # od_set kvs k v)"

text \<open>The body of the loop over \<^verbatim>\<open>uh_files\<close>.\<close>

definition make_point ::
  "uh_file \<Rightarrow> grid \<Rightarrow> out_dict \<Rightarrow> real \<Rightarrow> bool \<Rightarrow> py_error + point" where
  "make_point f area od rho_h20 cold =
     (case units od of
        None \<Rightarrow> Inl KeyError
      | Some u \<Rightarrow>
          (case make_uh f area u rho_h20 of
             Inl e \<Rightarrow> Inl e
           | Inr m \<Rightarrow>
               Inr \<lparr>time = (if uf_time_units f = ''seconds since 0-01-01 00:00:00''
                             then map (\<lambda>t. t / 86400) (uf_time f) else uf_time f),
                    xi = uf_xi f, yi = uf_yi f,
                    outlet_x = uf_outlet_x f, outlet_y = uf_outlet_y f,
                    lat = uf_outlet_lat f, lon = uf_outlet_lon f,
                    uh = m, now = 0,
                    ring = (if cold then Some (replicate (length m) 0) else None)\<rparr>))"

fun make_points ::
  "uh_file list \<Rightarrow> grid \<Rightarrow> out_dict \<Rightarrow> real \<Rightarrow> bool \<Rightarrow> registry \<Rightarrow> counts \<Rightarrow>
   py_error + (registry \<times> counts)" where
  "make_points [] area od rho_h20 cold pd cnt = Inr (pd, cnt)"
| "make_points (f # fs) area od rho_h20 cold pd cnt =
     (case make_point f area od rho_h20 cold of
        Inl e \<Rightarrow> Inl e
      | Inr d \<Rightarrow>
          make_points fs area od rho_h20 cold
            (od_set pd (outlet_y d, outlet_x d) d) (cnt\<lparr>points := points cnt + 1\<rparr>))"

text \<open>\<^verbatim>\<open>state[:, r, c]\<close> of a three-dimensional and \<^verbatim>\<open>state[:, i]\<close> of a two-dimensional state.\<close>

definition get_col2 :: "real list list list \<Rightarrow> int \<Rightarrow> int \<Rightarrow> real list option" where
  "get_col2 m r c = those (map (\<lambda>g. grid_at g r c) m)"

definition get_col1 :: "real list list \<Rightarrow> nat \<Rightarrow> real list" where
  "get_col1 m i = map (\<lambda>row. row ! i) m"

text \<open>The loop over the outlets of the registry, for a gridded state.\<close>

fun load_grid_state :: "real list list list \<Rightarrow> registry \<Rightarrow> py_error + registry" where
  "load_grid_state m [] = Inr []"
| "load_grid_state m ((key, d) # rest) =
     (case get_col2 m (fst key) (snd key) of
        None \<Rightarrow> Inl IndexError
      | Some r \<Rightarrow>
          (case load_grid_state m rest of
             Inl e \<Rightarrow> Inl e
           | Inr rest' \<Rightarrow> Inr ((key, d\<lparr>ring := Some r\<rparr>) # rest')))"

text \<open>
  The loop over the columns of a flat state, \<^verbatim>\<open>for i in xrange(state.shape[1])\<close>: the key of
  column \<open>i\<close> is read from the state file and must be a key of the registry.
\<close>

fun load_array_state ::
  "real list list \<Rightarrow> int list \<Rightarrow> int list \<Rightarrow> nat list \<Rightarrow> registry \<Rightarrow> py_error + registry" where
  "load_array_state m x_outlets y_outlets [] pd = Inr pd"
| "load_array_state m x_outlets y_outlets (i # is) pd =
     (if length x_outlets \<le> i \<or> length y_outlets \<le> i then Inl IndexError
      else
        (case map_of pd (y_outlets ! i, x_outlets ! i) of
           None \<Rightarrow> Inl KeyError
         | Some d \<Rightarrow>
             load_array_state m x_outlets y_outlets is
               (od_set pd (y_outlets ! i, x_outlets ! i) (d\<lparr>ring := Some (get_col1 m i)\<rparr>))))"

definition load_state :: "state_file \<Rightarrow> registry \<Rightarrow> py_error + registry" where
  "load_state sf pd =
     (case sf_Streamflow sf of
        A3 m \<Rightarrow> load_grid_state m pd
      | A2 m \<Rightarrow>
          load_array_state m (sf_xi sf) (sf_yi sf)
            [0 ..< (case m of [] \<Rightarrow> 0 | row # _ \<Rightarrow> length row)] pd
      | A1 _ \<Rightarrow> Inl IndexError)"

definition make_point_dict ::
  "uh_file list \<Rightarrow> grid \<Rightarrow> out_dict \<Rightarrow> counts \<Rightarrow> real \<Rightarrow> state_file option \<Rightarrow>
   py_error + (registry \<times> out_dict \<times> counts \<times> message list)" where
  "make_point_dict uh_files area od cnt rho_h20 initial_state =
     (case make_points uh_files area od rho_h20 (initial_state = None) [] (cnt\<lparr>points := 0\<rparr>) of
        Inl e \<Rightarrow> Inl e
      | Inr (pd, cnt') \<Rightarrow>
          (case (case initial_state of None \<Rightarrow> Inr pd | Some sf \<Rightarrow> load_state sf pd) of
             Inl e \<Rightarrow> Inl e
           | Inr pd' \<Rightarrow>
               Inr (pd',
                    od\<lparr>lats := map (\<lambda>(key, d). lat d) pd',
                       lons := map (\<lambda>(key, d). lon d) pd',
                       outlet_xs := map (\<lambda>(key, d). outlet_x d) pd',
                       outlet_ys := map (\<lambda>(key, d). outlet_y d) pd'\<rparr>,
                    cnt',
                    (case initial_state of None \<Rightarrow> [] | Some _ \<Rightarrow> [ReadingInitialState]))))"

section \<open>init\<close>

text \<open>
  The chain of tests on the units of the area. In the last branch only the warning is
  printed: \<^verbatim>\<open>area\<close> is not assigned.
\<close>

definition area_of :: "grid_file \<Rightarrow> grid option \<times> message list" where
  "area_of f =
     (if gf_area_units f \<in> set [''rad2'', ''radians2'', ''radian2'', ''rad^2'', ''radians^2'',
                                 ''rads^2'', ''radians squared'', ''square-radians'']
      then (Some (map (map (\<lambda>v. v * earthRadius * earthRadius)) (gf_area f)), [])
      else if gf_area_units f \<in> set [''m2'', ''m^2'', ''meters^2'', ''meters2'',
                                      ''square-meters'', ''meters squared'']
      then (Some (gf_area f), [])
      else if gf_area_units f \<in> set [''km2'', ''km^2'', ''kilometers^2'', ''kilometers2'',
                                      ''square-kilometers'', ''kilometers squared'']
      then (Some (map (map (\<lambda>v. v * metersPerKm * metersPerKm)) (gf_area f)), [])
      else if gf_area_units f \<in> set [''mi2'', ''mi^2'', ''miles^2'', ''miles'',
                                      ''square-miles'', ''miles squared'']
      then (Some (map (map (\<lambda>v. v * metersPerMile * metersPerMile)) (gf_area f)), [])
      else if gf_area_units f \<in> set [''acres'', ''ac'', ''ac.'']
      then (Some (map (map (\<lambda>v. v * meters2PerAcre)) (gf_area f)), [])
      else (None, [UnknownAreaUnits (gf_area_units f)]))"

definition shape_of :: "grid \<Rightarrow> shape" where
  "shape_of g = Shape2 (length g) (case g of [] \<Rightarrow> 0 | row # _ \<Rightarrow> length row)"

text \<open>
  \<^verbatim>\<open>init\<close>. An unbound \<^verbatim>\<open>area\<close> is read by \<^verbatim>\<open>area.shape\<close> inside the \<^verbatim>\<open>try\<close> for a gridded
  output (the handler prints and raises again), and otherwise by the call of
  \<^verbatim>\<open>make_point_dict\<close>. The messages are those printed before the function returns or raises.
\<close>

definition init ::
  "uh_file list \<Rightarrow> grid_file \<Rightarrow> state_file option \<Rightarrow> outputs \<Rightarrow> real \<Rightarrow>
   (py_error \<times> message list) +
   (registry \<times> out_dict \<times> grid \<times> shape \<times> counts \<times> message list)" where
  "init uh_files gfile initial_state outs rho_h20 =
     (let cnt = \<lparr>timesteps = 0, out_files = 0, state_files = 0, restart_files = 0, points = 0\<rparr>;
          (area, msgs) = area_of gfile;
          od0 = \<lparr>units = None, longitudes = None, latitudes = None,
                 lats = [], lons = [], outlet_xs = [], outlet_ys = []\<rparr>;
          od1 = (if out_type outs = ''grid''
                 then od0\<lparr>longitudes := Some (gf_xc gfile), latitudes := Some (gf_yc gfile)\<rparr>
                 else od0)
      in if out_type outs = ''grid'' \<and> area = None
         then Inl (UnboundLocalError, msgs @ [NoGridFile])
         else
           (let shp = (if out_type outs = ''grid'' then shape_of (the area)
                       else Shape1 (length uh_files));
                od2 = (if out_units outs = ''mass'' then od1\<lparr>units := Some KgM2S\<rparr>
                       else if out_units outs = ''volume'' then od1\<lparr>units := Some M3S\<rparr>
                       else od1)
            in case area of
                 None \<Rightarrow> Inl (UnboundLocalError, msgs)
               | Some a \<Rightarrow>
                   (case make_point_dict uh_files a od2 cnt rho_h20 initial_state of
                      Inl e \<Rightarrow> Inl (e, msgs)
                    | Inr (pd, od3, cnt', msgs') \<Rightarrow> Inr (pd, od3, a, shp, cnt', msgs @ msgs'))))"

section \<open>run\<close>




text \<open>The divisor chosen from the frequency and the mode of a flux file.\<close>

definition frequency_div :: "string \<Rightarrow> string \<Rightarrow> real \<times> message list" where
  "frequency_div frequency mode =
     (if frequency = ''hourly'' \<and> mode = ''instantaneous'' then (1200, [])
      else if frequency = ''hourly'' \<and> mode = ''averaged'' then (secsPerHour, [])
      else if frequency = ''dailyy'' \<and> mode = ''averaged'' then (secsPerDay, [])
      else (secsPerHour, [UnexpectedFrequency frequency]))"

text \<open>The factor of the units of \<^verbatim>\<open>Runoff\<close>.\<close>

definition units_factor :: "string \<Rightarrow> real \<times> message list" where
  "units_factor u =
     (if u = ''mm'' then (mmPerMeter, [])
      else if u = ''cm'' then (cmPerMeter, [])
      else (mmPerMeter, [UnexpectedUnits u]))"

definition file_div :: "flux_file \<Rightarrow> real \<times> message list" where
  "file_div f =
     (let (d, m1) = frequency_div (ff_output_frequency f) (ff_output_mode f);
          (k, m2) = units_factor (ff_runoff_units f)
      in (d * k, m1 @ m2))"

text \<open>\<^verbatim>\<open>(Runoff + Baseflow) / div\<close>, the sum with broadcasting on both axes.\<close>

definition grid_add :: "grid \<Rightarrow> grid \<Rightarrow> grid option" where
  "grid_add a b =
     (case broadcast a b of
        None \<Rightarrow> None
      | Some ps \<Rightarrow>
          those (map (\<lambda>(ra, rb). map_option (map (\<lambda>(v, w). v + w)) (broadcast ra rb)) ps))"

definition combine :: "real \<Rightarrow> flux_file \<Rightarrow> py_error + grid" where
  "combine dv f =
     (case grid_add (ff_Runoff f) (ff_Baseflow f) of
        None \<Rightarrow> Inl ValueError
      | Some g \<Rightarrow> Inr (map (map (\<lambda>v. v / dv)) g))"

text \<open>
  \<^verbatim>\<open>write_output\<close>, reduced to what the file holds: the name, the data, the time and, for
  a flat state, the outlet indices.
\<close>

definition write_output ::
  "string \<Rightarrow> ndarray \<Rightarrow> out_dict \<Rightarrow> time_dict \<Rightarrow> bool \<Rightarrow> shape \<Rightarrow> written" where
  "write_output out_name out_flow od td is_state shp =
     (if is_state then
        StateFile out_name
          \<lparr>sf_Streamflow = out_flow,
           sf_xi = (case shp of Shape1 _ \<Rightarrow> outlet_xs od | Shape2 _ _ \<Rightarrow> []),
           sf_yi = (case shp of Shape1 _ \<Rightarrow> outlet_ys od | Shape2 _ _ \<Rightarrow> []),
           sf_time = out_state_time td\<rparr>
      else StreamflowFile out_name out_flow (time_step td))"



text \<open>
  \<^verbatim>\<open>run\<close>: the final registry, the counts, the files written and the messages printed.
  The empty \<^verbatim>\<open>time_dict\<close> is the record \<open>td0\<close>; its keys are assigned before they are read.
\<close>

definition td0 :: time_dict where
  "td0 = \<lparr>time_step = 0, t_units = [], cal = [], long_name = [],
          output_frequency = None, out_state_time = None\<rparr>"


text \<open>The value \<^verbatim>\<open>out_flow[i]\<close> of a flat output.\<close>

definition emitted :: "ndarray \<Rightarrow> nat \<Rightarrow> real" where
  "emitted a i = (case a of A1 xs \<Rightarrow> xs ! i | _ \<Rightarrow> 0)"

section \<open>Concrete inputs\<close>

text \<open>An outlet with L = 3, K = 1, coefficients 0.5, 0.3, 0.2 and a cold ring.\<close>

definition c1_outlet :: point where
  "c1_outlet =
     \<lparr>time = [0, 1, 2], xi = [0], yi = [0], outlet_x = 0, outlet_y = 0, lat = 0, lon = 0,
      uh = [[1/2], [3/10], [1/5]], now = 0, ring = Some [0, 0, 0]\<rparr>"

text \<open>A daily averaged flux file in millimetres, with one cell.\<close>

definition c4_daily :: flux_file where
  "c4_daily =
     \<lparr>ff_name = ''flux.1990-01-01.nc'', ff_time = 0, ff_time_units = ''days'',
      ff_calendar = ''noleap'', ff_long_name = ''time'', ff_output_frequency = ''daily'',
      ff_output_mode = ''averaged'', ff_runoff_units = ''mm'',
      ff_Runoff = [[86400000]], ff_Baseflow = [[0]]\<rparr>"


definition c10_outputs :: outputs where
  "c10_outputs = \<lparr>out_type = ''array'', out_units = ''volume'', state = Some []\<rparr>"

definition c10_out_dict :: out_dict where
  "c10_out_dict = \<lparr>units = Some M3S, longitudes = None, latitudes = None,
      lats = [0], lons = [0], outlet_xs = [0], outlet_ys = [0]\<rparr>"

definition counts0 :: counts where
  "counts0 = \<lparr>timesteps = 0, out_files = 0, state_files = 0, restart_files = 0, points = 0\<rparr>"

text \<open>A grid file with unknown area units and two unit hydrograph files, the second empty.\<close>

definition c7_hectares :: grid_file where
  "c7_hectares = \<lparr>gf_area_units = ''hectares'', gf_area = [[2]], gf_xc = [[0]], gf_yc = [[0]]\<rparr>"

definition c6_uh :: uh_file where
  "c6_uh = \<lparr>uf_time_units = ''days since 0-01-01 00:00:00'', uf_time = [0, 1, 2],
     uf_xi = [0], uf_yi = [0], uf_outlet_x = 0, uf_outlet_y = 0, uf_outlet_lat = 0,
     uf_outlet_lon = 0, uf_unit_hydrograph = [[1/2], [3/10], [1/5]], uf_fraction = [1]\<rparr>"

definition c6_empty_uh :: uh_file where
  "c6_empty_uh = \<lparr>uf_time_units = ''days since 0-01-01 00:00:00'', uf_time = [],
     uf_xi = [], uf_yi = [], uf_outlet_x = 0, uf_outlet_y = 0, uf_outlet_lat = 0,
     uf_outlet_lon = 0, uf_unit_hydrograph = [], uf_fraction = []\<rparr>"

text \<open>
  A unit hydrograph file whose arrays agree in shape and whose indices lie in the area grid;
  nothing is asked of L and K.
\<close>

definition uh_fits :: "grid \<Rightarrow> uh_file \<Rightarrow> bool" where
  "uh_fits area f =
     (list_all (\<lambda>row. length row = length (uf_fraction f)) (uf_unit_hydrograph f) \<and>
      length (uf_xi f) = length (uf_fraction f) \<and>
      length (uf_yi f) = length (uf_fraction f) \<and>
      list_all (\<lambda>(r, c). grid_at area r c \<noteq> None) (zip (uf_yi f) (uf_xi f)) \<and>
      grid_at area (uf_outlet_y f) (uf_outlet_x f) \<noteq> None)"

text \<open>
  The entry of an outlet after the columns \<open>is\<close> of a flat state have been read: the ring is
  the last column whose key is the key of the outlet, if there is one.
\<close>

definition restored ::
  "real list list \<Rightarrow> int list \<Rightarrow> int list \<Rightarrow> nat list \<Rightarrow> (int \<times> int) \<times> point \<Rightarrow>
   (int \<times> int) \<times> point" where
  "restored m x_outlets y_outlets is =
     (\<lambda>(key, d). case filter (\<lambda>i. (y_outlets ! i, x_outlets ! i) = key) is of
                    [] \<Rightarrow> (key, d)
                  | j # js \<Rightarrow> (key, d\<lparr>ring := Some (get_col1 m (last (j # js)))\<rparr>))"

text \<open>A second outlet at (1, 1), two flat state files and a registry without rings.\<close>

definition c8_uh_b :: uh_file where
  "c8_uh_b = c6_uh\<lparr>uf_xi := [1], uf_yi := [1], uf_outlet_x := 1, uf_outlet_y := 1\<rparr>"

definition c8_state_a :: state_file where
  "c8_state_a = \<lparr>sf_Streamflow = A2 [[3], [2], [0]], sf_xi = [0], sf_yi = [0], sf_time = None\<rparr>"

definition c8_state_ab :: state_file where
  "c8_state_ab = \<lparr>sf_Streamflow = A2 [[3, 7], [2, 8], [0, 9]], sf_xi = [0, 1], sf_yi = [0, 1],
     sf_time = None\<rparr>"

definition c8_registry :: registry where
  "c8_registry =
     [((0, 0), c1_outlet\<lparr>ring := None\<rparr>),
      ((1, 1), c1_outlet\<lparr>xi := [1], yi := [1], outlet_x := 1, outlet_y := 1, ring := None\<rparr>)]"


section \<open>Notions used in the proofs\<close>

text \<open>
  What one iteration of the loop of \<^verbatim>\<open>convolve\<close> does to the ring of an outlet, when nothing
  raises: the value emitted and the ring after the rotation.
\<close>

definition advance :: "grid \<Rightarrow> point \<Rightarrow> (real \<times> real list) option" where
  "advance flux d =
     (case ring d of None \<Rightarrow> None | Some r0 \<Rightarrow>
     (case gather flux (yi d) (xi d) of None \<Rightarrow> None | Some vals \<Rightarrow>
     (case contribution vals (uh d) of None \<Rightarrow> None | Some c \<Rightarrow>
     (case iadd r0 c of None \<Rightarrow> None | Some r1 \<Rightarrow>
     (case r1 of [] \<Rightarrow> None | v # _ \<Rightarrow>
     (case np_index (length r1) (now d) of None \<Rightarrow> None | Some k \<Rightarrow>
     (case shift (r1[k := 0]) 1 of Inl _ \<Rightarrow> None | Inr r3 \<Rightarrow> Some (v, r3))))))))"

text \<open>The two assignments of that iteration to \<^verbatim>\<open>out_flow\<close> and to \<^verbatim>\<open>out_state\<close>.\<close>

definition put_flow :: "shape \<Rightarrow> nat \<Rightarrow> point \<Rightarrow> real \<Rightarrow> ndarray \<Rightarrow> ndarray option" where
  "put_flow shp i d v out_flow =
     (case shp of Shape1 _ \<Rightarrow> set_item1 out_flow (int i) v
                | Shape2 _ _ \<Rightarrow> set_item2 out_flow (outlet_y d) (outlet_x d) v)"

definition put_state :: "shape \<Rightarrow> nat \<Rightarrow> int \<times> int \<Rightarrow> real list \<Rightarrow> ndarray \<Rightarrow> py_error + ndarray" where
  "put_state shp i pt r st =
     (case shp of Shape1 _ \<Rightarrow> set_col1 st (int i) r
                | Shape2 _ _ \<Rightarrow> set_col2 st (fst pt) (snd pt) r)"

text \<open>A registry without its rings, as \<^verbatim>\<open>make_point_dict\<close> builds it before a state is read.\<close>

definition strip :: "registry \<Rightarrow> registry" where
  "strip pd = map (\<lambda>(key, d). (key, d\<lparr>ring := None\<rparr>)) pd"

text \<open>The outlet has a ring, of length \<open>l\<close>.\<close>

definition ring_length :: "nat \<Rightarrow> point \<Rightarrow> bool" where
  "ring_length l d = (case ring d of None \<Rightarrow> False | Some r \<Rightarrow> length r = l)"

text \<open>The registry after a timestep in which nothing raises.\<close>

definition step_reg :: "grid \<Rightarrow> registry \<Rightarrow> registry" where
  "step_reg flux pd = map (\<lambda>(key, d). (key, d\<lparr>ring := map_option snd (advance flux d)\<rparr>)) pd"

text \<open>The shapes of a flat state, of a grid and of a gridded state.\<close>

definition flat_ok :: "nat \<Rightarrow> nat \<Rightarrow> real list list \<Rightarrow> bool" where
  "flat_ok l n m = (length m = l \<and> list_all (\<lambda>row. length row = n) m)"

definition shape_ok :: "nat \<Rightarrow> nat \<Rightarrow> grid \<Rightarrow> bool" where
  "shape_ok ny nx g = (length g = ny \<and> list_all (\<lambda>row. length row = nx) g)"

definition grid_ok :: "nat \<Rightarrow> nat \<Rightarrow> nat \<Rightarrow> real list list list \<Rightarrow> bool" where
  "grid_ok l ny nx m = (length m = l \<and> list_all (shape_ok ny nx) m)"

text \<open>The cell of a grid of \<open>ny\<close> rows and \<open>nx\<close> columns that a key indexes.\<close>

definition cell :: "nat \<Rightarrow> nat \<Rightarrow> int \<times> int \<Rightarrow> nat option \<times> nat option" where
  "cell ny nx key = (np_index ny (fst key), np_index nx (snd key))"

text \<open>
  Registries as \<^verbatim>\<open>make_point_dict\<close> builds them: the keys are distinct and every key is the
  pair of the outlet coordinates of its entry. In a well-formed registry, moreover, every
  unit hydrograph has \<open>l\<close> rows and every ring has length \<open>l\<close>.
\<close>

definition keys_ok :: "registry \<Rightarrow> bool" where
  "keys_ok pd =
     (distinct (map fst pd) \<and> list_all (\<lambda>(key, d). key = (outlet_y d, outlet_x d)) pd)"

definition wf_registry :: "nat \<Rightarrow> registry \<Rightarrow> bool" where
  "wf_registry l pd =
     (distinct (map fst pd) \<and>
      list_all (\<lambda>(key, d). key = (outlet_y d, outlet_x d) \<and> length (uh d) = l \<and>
                             ring_length l d) pd)"

text \<open>
  The shape fits the registry: a flat output has one entry per outlet, and in a gridded
  output the outlets lie in different cells.
\<close>

definition layout_ok :: "shape \<Rightarrow> registry \<Rightarrow> bool" where
  "layout_ok shp pd =
     (case shp of
        Shape1 n \<Rightarrow> n = length pd
      | Shape2 ny nx \<Rightarrow> distinct (map (\<lambda>(key, d). cell ny nx key) pd))"

section \<open>Concrete inputs for snapshots\<close>

text \<open>
  A unit hydrograph file with two rows and the outlet that is registered from it; an outlet
  whose time axis starts at 5; a timestep at time 100.
\<close>

definition c3_uh_short :: uh_file where
  "c3_uh_short = c8_uh_b\<lparr>uf_time := [5, 6], uf_unit_hydrograph := [[1/2], [1/2]]\<rparr>"

definition c3_short :: point where
  "c3_short =
     \<lparr>time = [5, 6], xi = [1], yi = [1], outlet_x = 1, outlet_y = 1, lat = 0, lon = 0,
      uh = [[1/2], [1/2]], now = 0, ring = Some [0, 0]\<rparr>"

definition c9_late :: point where
  "c9_late =
     \<lparr>time = [5, 6, 7], xi = [1], yi = [1], outlet_x = 1, outlet_y = 1, lat = 0, lon = 0,
      uh = [[1/2], [3/10], [1/5]], now = 0, ring = Some [0, 0, 0]\<rparr>"

definition c9_time_dict :: time_dict where
  "c9_time_dict = td0\<lparr>time_step := 100\<rparr>"

section \<open>A single outlet with one contributing cell\<close>

lemma those_map_Some: "those (map (\<lambda>a. Some (f a)) xs) = Some (map f xs)"
  by (induction xs) auto

lemma contribution_K1: "contribution [q] (map (\<lambda>c. [c]) C) = Some (map (\<lambda>c. q * c) C)"
  by (simp add: contribution_def broadcast_def o_def those_map_Some)

lemma shift_one:
  assumes "l \<noteq> []"
  shows "shift l 1 = Inr (tl l @ [hd l])"
proof (cases l)
  case Nil
  then show ?thesis using assms by simp
next
  case (Cons a l')
  then show ?thesis by (cases l') (simp_all add: shift_def)
qed

lemma map2_fst: "length r = length C \<Longrightarrow> map (\<lambda>(a, c). a) (zip r C) = r"
  by (induction r C rule: list_induct2) auto

lemma map2_zero_add:
  "length r = length C \<Longrightarrow> list_all (\<lambda>a. a = 0) r \<Longrightarrow>
   map (\<lambda>(a, c). a + 1 * c) (zip r C) = (C :: real list)"
  by (induction r C rule: list_induct2) auto

text \<open>One timestep: the ring receives \<open>q\<close> times the coefficients, emits its head and rotates.\<close>

lemma convolve_single:
  fixes d :: point
  assumes "ring d = Some r" "length r = length C" "C \<noteq> []" "uh d = map (\<lambda>c. [c]) C"
    "now d = 0" "xi d = [cx]" "yi d = [cy]" "grid_at flux cy cx = Some q"
  shows "convolve [(pt, d)] td flux False (Shape1 1) =
     Inr ([(pt, d\<lparr>ring := Some (tl (map (\<lambda>(a, c). a + q * c) (zip r C)) @ [0])\<rparr>)],
          A1 [hd r + q * hd C], None, td\<lparr>out_state_time := None\<rparr>)"
proof -
  define r1 where "r1 = map (\<lambda>(a, c). a + q * c) (zip r C)"
  obtain c0 C' where C: "C = c0 # C'" using assms(3) by (cases C) auto
  obtain r0 r' where r: "r = r0 # r'" using assms(2) C by (cases r) auto
  have g: "gather flux (yi d) (xi d) = Some [q]"
    using assms by (simp add: gather_def broadcast_def)
  have c: "contribution [q] (uh d) = Some (map (\<lambda>c. q * c) C)"
    using assms(4) by (simp add: contribution_K1)
  have ia: "iadd r (map (\<lambda>c. q * c) C) = Some r1"
    using assms(2) by (simp add: iadd_def zip_map2 case_prod_unfold r1_def)
  obtain rest where r1: "r1 = (hd r + q * hd C) # rest"
    by (simp add: r1_def C r)
  have sh: "shift (r1[0 := 0]) 1 = Inr (tl r1 @ [0])"
    by (simp add: r1 shift_one)
  have cp: "convolve_point (Shape1 1) flux False 0 pt d (A1 [0]) None =
      Inr (d\<lparr>ring := Some (tl r1 @ [0])\<rparr>, A1 [hd r + q * hd C], None)"
    unfolding convolve_point_def
    apply (simp only: assms(1) g c ia option.case)
    using sh apply (simp add: r1 set_item1_def np_index_def assms(5))
    done
  show ?thesis
    unfolding convolve_def zeros_def
    by (simp only: list.case prod.case Let_def if_False shape.case replicate.simps One_nat_def
          convolve_loop.simps cp[unfolded One_nat_def] sum.case r1_def)
qed

text \<open>With zero flux the ring drains in order.\<close>

lemma drain:
  fixes d :: point
  assumes "C \<noteq> []" "uh d = map (\<lambda>c. [c]) C" "now d = 0" "xi d = [cx]" "yi d = [cy]"
    "list_all (\<lambda>f. grid_at f cy cx = Some 0) fs"
    "ring d = Some r" "length r = length C" "length fs \<le> length C"
  shows "convolve_seq [(pt, d)] td fs (Shape1 1) =
     Inr ([(pt, d\<lparr>ring := Some (drop (length fs) r @ replicate (length fs) 0)\<rparr>)],
          map (\<lambda>v. A1 [v]) (take (length fs) r))"
  using assms
proof (induction fs arbitrary: d r td)
  case Nil
  then show ?case by simp
next
  case (Cons f fs)
  let ?r' = "tl r @ [0]"
  let ?d' = "d\<lparr>ring := Some ?r'\<rparr>"
  have z: "map (\<lambda>(a, c). a) (zip r C) = r"
    using Cons.prems(8) by (rule map2_fst)
  have step: "convolve [(pt, d)] td f False (Shape1 1) =
     Inr ([(pt, ?d')], A1 [hd r], None, td\<lparr>out_state_time := None\<rparr>)"
    using convolve_single[OF Cons.prems(7,8,1,2,3,4,5), of f 0 pt td] Cons.prems(6)
    by (simp add: z)
  have rne: "r \<noteq> []" using Cons.prems by auto
  have IH: "convolve_seq [(pt, ?d')] (td\<lparr>out_state_time := None\<rparr>) fs (Shape1 1) =
     Inr ([(pt, ?d'\<lparr>ring := Some (drop (length fs) ?r' @ replicate (length fs) 0)\<rparr>)],
          map (\<lambda>v. A1 [v]) (take (length fs) ?r'))"
    using Cons.prems by (intro Cons.IH) auto
  have a: "drop (length fs) ?r' @ replicate (length fs) 0 =
      drop (length (f # fs)) r @ replicate (length (f # fs)) 0"
    using rne Cons.prems(8,9) by (cases r) (auto simp: replicate_append_same)
  have b: "take (length (f # fs)) r = hd r # take (length fs) ?r'"
    using rne Cons.prems(8,9) by (cases r) auto
  show ?case
    apply (simp only: convolve_seq.simps step sum.case prod.case IH a b list.map)
    apply simp
    done
qed

section \<open>The claims\<close>

text \<open>
  Claim C1. The outlet with L = 3, K = 1 and coefficients 0.5, 0.3, 0.2, fed the flux 10 at
  timestep 0 and 0 afterwards, emits 5, 3, 2, 0 at timesteps 0 to 3, and right after
  timestep 0 its ring is [3, 2, 0].
\<close>

theorem scenario_L3_K1:
  "convolve_seq [((0, 0), c1_outlet)] td0 [[[10]], [[0]], [[0]], [[0]]] (Shape1 1) =
     Inr ([((0, 0), c1_outlet)], [A1 [5], A1 [3], A1 [2], A1 [0]]) \<and>
   convolve [((0, 0), c1_outlet)] td0 [[10]] False (Shape1 1) =
     Inr ([((0, 0), c1_outlet\<lparr>ring := Some [3, 2, 0]\<rparr>)], A1 [5], None, td0)"
  by (simp add: convolve_def convolve_point_def c1_outlet_def td0_def np_index_def
        broadcast_def grid_at_def gather_def contribution_def iadd_def shift_def zeros_def
        set_item1_def)

text \<open>
  Claim C2. An outlet with one contributing cell, coefficients \<open>C\<close> and a zero ring, fed the
  flux 1 at timestep 0 and 0 at the later timesteps, emits over the \<open>length C\<close> timesteps
  values whose sum is the sum of \<open>C\<close>.
\<close>

theorem conservation:
  fixes d :: point
  assumes "C \<noteq> []" "xi d = [cx]" "yi d = [cy]" "uh d = map (\<lambda>c. [c]) C" "now d = 0"
    "ring d = Some (replicate (length C) 0)"
    "grid_at f0 cy cx = Some 1" "list_all (\<lambda>f. grid_at f cy cx = Some 0) fs"
    "Suc (length fs) = length C"
  shows "\<exists>pd' outs. convolve_seq [(pt, d)] td (f0 # fs) (Shape1 1) = Inr (pd', outs) \<and>
     length outs = length C \<and> sum_list (map (\<lambda>a. emitted a 0) outs) = sum_list C"
proof -
  let ?r = "replicate (length C) (0::real)"
  let ?d' = "d\<lparr>ring := Some (tl C @ [0])\<rparr>"
  let ?td' = "td\<lparr>out_state_time := None\<rparr>"
  have m: "map (\<lambda>(a, c). a + 1 * c) (zip ?r C) = C"
    by (rule map2_zero_add) (simp_all add: list_all_length)
  have h: "hd ?r + 1 * hd C = hd C"
    using assms(1) by (cases C) auto
  have step: "convolve [(pt, d)] td f0 False (Shape1 1) = Inr ([(pt, ?d')], A1 [hd C], None, ?td')"
    using convolve_single[OF assms(6) _ assms(1,4,5,2,3,7), of pt td]
    by (simp only: m h length_replicate)
  have dr: "convolve_seq [(pt, ?d')] ?td' fs (Shape1 1) =
     Inr ([(pt, ?d'\<lparr>ring := Some (drop (length fs) (tl C @ [0]) @ replicate (length fs) 0)\<rparr>)],
          map (\<lambda>v. A1 [v]) (take (length fs) (tl C @ [0])))"
    using assms by (intro drain[where C = C and cx = cx and cy = cy]) auto
  have t: "take (length fs) (tl C @ [0]) = tl C"
    using assms(9) by (cases C) auto
  have outs: "A1 [hd C] # map (\<lambda>v. A1 [v]) (tl C) = map (\<lambda>v. A1 [v]) C"
    using assms(1) by (cases C) auto
  have s: "sum_list (map (\<lambda>a. emitted a 0) (map (\<lambda>v. A1 [v]) C)) = sum_list C"
    by (simp add: o_def emitted_def)
  show ?thesis
    apply (simp only: convolve_seq.simps step sum.case prod.case dr t outs)
    using s apply simp
    done
qed

theorem conservation_witness:
  "\<exists>pd' outs.
     convolve_seq [((0, 0), c1_outlet)] td0 [[[1]], [[0]], [[0]]] (Shape1 1) = Inr (pd', outs) \<and>
     length outs = 3 \<and> sum_list (map (\<lambda>a. emitted a 0) outs) = 1"
  using conservation[of "[1/2, 3/10, 1/5]" c1_outlet 0 0 "[[1]]" "[[[0]], [[0]]]" "(0, 0)" td0]
  by (simp add: c1_outlet_def grid_at_def np_index_def numeral_3_eq_3)

section \<open>The divisor of the fluxes\<close>

lemmas unit_consts = secsPerHour_def secsPerDay_def hoursPerDay_def mmPerMeter_def cmPerMeter_def

text \<open>
  Claim C4, as stated, fails: for the frequency \<open>daily\<close> and the mode \<open>averaged\<close> the divisor
  is 3600 (times 1000 for millimetres) with a warning, not 86400.
\<close>

theorem daily_averaged_counterexample:
  "file_div c4_daily = (3600000, [UnexpectedFrequency ''daily'']) \<and>
   combine (fst (file_div c4_daily)) c4_daily = Inr [[24]] \<and>
   fst (file_div c4_daily) \<noteq> 86400 * 1000"
  by (simp add: file_div_def frequency_div_def units_factor_def c4_daily_def unit_consts combine_def
       grid_add_def broadcast_def)

lemma grid_add_same_shape:
  assumes "list_all2 (\<lambda>r b. length r = length b) R B"
  shows "grid_add R B = Some (map (\<lambda>(r, b). map (\<lambda>(v, w). v + w) (zip r b)) (zip R B))"
proof -
  have len: "length R = length B" using assms by (rule list_all2_lengthD)
  have "those (map (\<lambda>(ra, rb). map_option (map (\<lambda>(v, w). v + w)) (broadcast ra rb)) (zip R B))
      = Some (map (\<lambda>(r, b). map (\<lambda>(v, w). v + w) (zip r b)) (zip R B))"
    using assms by (induction R B rule: list_all2_induct) (auto simp: broadcast_def)
  then show ?thesis by (simp add: grid_add_def broadcast_def len)
qed

text \<open>
  Claim C4, amended. The divisor is 1200 for (hourly, instantaneous), 3600 for (hourly,
  averaged), 86400 for (dailyy, averaged), the spelling the code tests, and 3600 with a
  warning for every other combination, (daily, averaged) included; it is multiplied by 100
  for centimetres and by 1000 otherwise, with a warning for units other than mm and cm.
  For grids of the same shape every combined cell is (runoff + baseflow) / div.
\<close>

theorem divisor_policy:
  assumes "list_all2 (\<lambda>r b. length r = length b) (ff_Runoff f) (ff_Baseflow f)"
  shows "fst (file_div f) =
      (if ff_output_frequency f = ''hourly'' \<and> ff_output_mode f = ''instantaneous'' then 1200
       else if ff_output_frequency f = ''hourly'' \<and> ff_output_mode f = ''averaged'' then 3600
       else if ff_output_frequency f = ''dailyy'' \<and> ff_output_mode f = ''averaged'' then 86400
       else 3600) * (if ff_runoff_units f = ''cm'' then 100 else 1000) \<and>
    snd (file_div f) =
      (if ff_output_frequency f = ''hourly'' \<and> ff_output_mode f = ''instantaneous'' then []
       else if ff_output_frequency f = ''hourly'' \<and> ff_output_mode f = ''averaged'' then []
       else if ff_output_frequency f = ''dailyy'' \<and> ff_output_mode f = ''averaged'' then []
       else [UnexpectedFrequency (ff_output_frequency f)]) @
      (if ff_runoff_units f = ''mm'' \<or> ff_runoff_units f = ''cm'' then []
       else [UnexpectedUnits (ff_runoff_units f)]) \<and>
    combine (fst (file_div f)) f =
      Inr (map (\<lambda>(r, b). map (\<lambda>(v, w). (v + w) / fst (file_div f)) (zip r b))
               (zip (ff_Runoff f) (ff_Baseflow f)))"
proof -
  have a: "combine (fst (file_div f)) f =
      Inr (map (\<lambda>(r, b). map (\<lambda>(v, w). (v + w) / fst (file_div f)) (zip r b))
               (zip (ff_Runoff f) (ff_Baseflow f)))"
    by (simp add: combine_def grid_add_same_shape[OF assms] case_prod_unfold o_def)
  have b: "fst (file_div f) =
      (if ff_output_frequency f = ''hourly'' \<and> ff_output_mode f = ''instantaneous'' then 1200
       else if ff_output_frequency f = ''hourly'' \<and> ff_output_mode f = ''averaged'' then 3600
       else if ff_output_frequency f = ''dailyy'' \<and> ff_output_mode f = ''averaged'' then 86400
       else 3600) * (if ff_runoff_units f = ''cm'' then 100 else 1000)"
    by (simp add: file_div_def frequency_div_def units_factor_def unit_consts)
  have c: "snd (file_div f) =
      (if ff_output_frequency f = ''hourly'' \<and> ff_output_mode f = ''instantaneous'' then []
       else if ff_output_frequency f = ''hourly'' \<and> ff_output_mode f = ''averaged'' then []
       else if ff_output_frequency f = ''dailyy'' \<and> ff_output_mode f = ''averaged'' then []
       else [UnexpectedFrequency (ff_output_frequency f)]) @
      (if ff_runoff_units f = ''mm'' \<or> ff_runoff_units f = ''cm'' then []
       else [UnexpectedUnits (ff_runoff_units f)])"
    by (simp add: file_div_def frequency_div_def units_factor_def)
  from a b c show ?thesis by blast
qed

theorem divisor_policy_witness:
  "list_all2 (\<lambda>r b. length r = length b) (ff_Runoff c4_daily) (ff_Baseflow c4_daily) \<and>
   fst (file_div c4_daily) = 3600000 \<and>
   snd (file_div c4_daily) = [UnexpectedFrequency ''daily''] \<and>
   combine (fst (file_div c4_daily)) c4_daily = Inr [[24]]"
proof -
  have h: "list_all2 (\<lambda>r b. length r = length b) (ff_Runoff c4_daily) (ff_Baseflow c4_daily)"
    by (simp add: c4_daily_def)
  note p = divisor_policy[OF h]
  have d: "fst (file_div c4_daily) = 3600000"
    using p by (simp add: c4_daily_def)
  have m: "snd (file_div c4_daily) = [UnexpectedFrequency ''daily'']"
    using p by (simp add: c4_daily_def)
  have c: "combine (fst (file_div c4_daily)) c4_daily = Inr [[24]]"
    using p unfolding d by (simp add: c4_daily_def)
  from h d m c show ?thesis by blast
qed

section \<open>The loop of run\<close>

lemma combine_meta [simp]:
  "combine d (f\<lparr>ff_output_frequency := a, ff_output_mode := b, ff_runoff_units := c\<rparr>) = combine d f"
  by (simp add: combine_def)








lemmas array_prims = np_index_def broadcast_def grid_at_def gather_def contribution_def
  iadd_def shift_def zeros_def zeros_state_def set_item1_def set_item2_def fit_def set_col1_def
  set_col2_def


section \<open>init and the units of the area\<close>

text \<open>
  Claim C7 at a grid file tagged \<open>hectares\<close>: \<^verbatim>\<open>init\<close> prints the warning and then fails on the
  unbound \<^verbatim>\<open>area\<close>, for a flat and for a gridded output, while the same file tagged \<open>m2\<close> is
  accepted; the recognised units are converted by the table (2 km2 are 2000000 m2, one acre
  is 4046.856 m2).
\<close>

theorem unknown_area_units_unbound:
  "init [c6_uh] c7_hectares None c10_outputs 1000 =
     Inl (UnboundLocalError, [UnknownAreaUnits ''hectares'']) \<and>
   init [c6_uh] c7_hectares None (c10_outputs\<lparr>out_type := ''grid''\<rparr>) 1000 =
     Inl (UnboundLocalError, [UnknownAreaUnits ''hectares'', NoGridFile]) \<and>
   init [c6_uh] (c7_hectares\<lparr>gf_area_units := ''m2''\<rparr>) None c10_outputs 1000 =
     Inr ([((0, 0), \<lparr>time = [0, 1, 2], xi = [0], yi = [0], outlet_x = 0, outlet_y = 0, lat = 0,
                     lon = 0, uh = [[1], [3 / 5], [2 / 5]], now = 0, ring = Some [0, 0, 0]\<rparr>)],
          c10_out_dict, [[2]], Shape1 1, counts0\<lparr>points := 1\<rparr>, []) \<and>
   area_of (c7_hectares\<lparr>gf_area_units := ''km2''\<rparr>) = (Some [[2000000]], []) \<and>
   area_of (c7_hectares\<lparr>gf_area_units := ''acres'', gf_area := [[1]]\<rparr>) =
     (Some [[4046856 / 1000]], [])"
  by (simp add: init_def area_of_def c7_hectares_def c10_outputs_def Let_def metersPerKm_def
        meters2PerAcre_def make_point_dict_def make_point_def make_uh_def rows_mul_def bmul_def
        gather_def grid_at_def np_index_def broadcast_def c6_uh_def c10_out_dict_def counts0_def)

section \<open>Registration\<close>

text \<open>
  Claim C6, as stated, fails: a unit hydrograph with L = 0 and K = 0 is registered, with an
  empty ring.
\<close>

theorem zero_length_registers_counterexample:
  "make_point_dict [c6_empty_uh] [[1]] c10_out_dict counts0 1000 None =
     Inr ([((0, 0), \<lparr>time = [], xi = [], yi = [], outlet_x = 0, outlet_y = 0, lat = 0, lon = 0,
                     uh = [], now = 0, ring = Some []\<rparr>)],
          c10_out_dict, counts0\<lparr>points := 1\<rparr>, [])"
  by (simp add: make_point_dict_def make_point_def make_uh_def rows_mul_def gather_def
        broadcast_def c6_empty_uh_def c10_out_dict_def counts0_def)


lemma those_all_Some:
  "list_all (\<lambda>a. f a \<noteq> None) xs \<Longrightarrow> those (map f xs) = Some (map (\<lambda>a. the (f a)) xs)"
  by (induction xs) auto

lemma rows_mul_fits:
  assumes "list_all (\<lambda>row. length row = length v) m"
  shows "\<exists>m'. rows_mul m v = Some m' \<and> length m' = length m \<and>
     list_all (\<lambda>row. length row = length v) m'"
  using assms
proof (induction m)
  case Nil
  then show ?case by (simp add: rows_mul_def)
next
  case (Cons row m)
  then obtain m' where m': "rows_mul m v = Some m'" "length m' = length m"
      "list_all (\<lambda>row. length row = length v) m'"
    by auto
  have "bmul row v = Some (map (\<lambda>(a, b). a * b) (zip row v))"
    using Cons.prems by (simp add: bmul_def broadcast_def)
  then show ?case
    using m' Cons.prems by (simp add: rows_mul_def)
qed

lemma gather_fits:
  assumes "length ys = length xs" "list_all (\<lambda>(r, c). grid_at g r c \<noteq> None) (zip ys xs)"
  shows "\<exists>a. gather g ys xs = Some a \<and> length a = length xs"
proof -
  have "those (map (\<lambda>(r, c). grid_at g r c) (zip ys xs)) =
      Some (map (\<lambda>p. the ((\<lambda>(r, c). grid_at g r c) p)) (zip ys xs))"
    by (rule those_all_Some) (use assms(2) in \<open>simp add: case_prod_unfold\<close>)
  then show ?thesis
    using assms(1) by (simp add: gather_def broadcast_def)
qed

lemma make_uh_fits:
  assumes "uh_fits area f"
  shows "\<exists>m. make_uh f area u rho = Inr m \<and> length m = length (uf_unit_hydrograph f)"
proof -
  from assms have rows: "list_all (\<lambda>row. length row = length (uf_fraction f)) (uf_unit_hydrograph f)"
    and lx: "length (uf_xi f) = length (uf_fraction f)"
    and ly: "length (uf_yi f) = length (uf_xi f)"
    and cells: "list_all (\<lambda>(r, c). grid_at area r c \<noteq> None) (zip (uf_yi f) (uf_xi f))"
    and out: "grid_at area (uf_outlet_y f) (uf_outlet_x f) \<noteq> None"
    by (simp_all add: uh_fits_def)
  obtain m1 where m1: "rows_mul (uf_unit_hydrograph f) (uf_fraction f) = Some m1"
      "length m1 = length (uf_unit_hydrograph f)"
      "list_all (\<lambda>row. length row = length (uf_fraction f)) m1"
    using rows_mul_fits[OF rows] by auto
  obtain a where a: "gather area (uf_yi f) (uf_xi f) = Some a" "length a = length (uf_xi f)"
    using gather_fits[OF ly cells] by auto
  have "list_all (\<lambda>row. length row = length a) m1"
    using m1(3) a(2) lx by simp
  then obtain m2 where m2: "rows_mul m1 a = Some m2" "length m2 = length m1"
    using rows_mul_fits by blast
  obtain a0 where a0: "grid_at area (uf_outlet_y f) (uf_outlet_x f) = Some a0"
    using out by auto
  show ?thesis
    by (cases u) (simp_all add: make_uh_def m1 a m2 a0)
qed

lemma make_point_fits:
  assumes "units od \<noteq> None" "uh_fits area f"
  shows "\<exists>d. make_point f area od rho True = Inr d \<and>
     length (uh d) = length (uf_unit_hydrograph f) \<and>
     ring d = Some (replicate (length (uf_unit_hydrograph f)) 0)"
proof -
  obtain u where u: "units od = Some u" using assms(1) by auto
  obtain m where m: "make_uh f area u rho = Inr m" "length m = length (uf_unit_hydrograph f)"
    using make_uh_fits[OF assms(2)] by blast
  show ?thesis by (simp add: make_point_def u m)
qed

lemma od_set_cold:
  assumes "list_all (\<lambda>(key, d). ring d = Some (replicate (length (uh d)) 0)) pd"
    "ring d = Some (replicate (length (uh d)) 0)"
  shows "list_all (\<lambda>(key, d). ring d = Some (replicate (length (uh d)) 0)) (od_set pd k d)"
  using assms by (induction pd) auto

lemma make_points_fits:
  assumes "units od \<noteq> None" "list_all (uh_fits area) ufs"
    "list_all (\<lambda>(key, d). ring d = Some (replicate (length (uh d)) 0)) pd"
  shows "\<exists>pd' cnt'. make_points ufs area od rho True pd cnt = Inr (pd', cnt') \<and>
     list_all (\<lambda>(key, d). ring d = Some (replicate (length (uh d)) 0)) pd'"
  using assms
proof (induction ufs arbitrary: pd cnt)
  case Nil
  then show ?case by simp
next
  case (Cons f ufs)
  obtain d where d: "make_point f area od rho True = Inr d"
      "length (uh d) = length (uf_unit_hydrograph f)"
      "ring d = Some (replicate (length (uf_unit_hydrograph f)) 0)"
    using make_point_fits[OF Cons.prems(1), of area f rho] Cons.prems(2) by auto
  have "list_all (\<lambda>(key, d). ring d = Some (replicate (length (uh d)) 0))
      (od_set pd (outlet_y d, outlet_x d) d)"
    using Cons.prems(3) d by (intro od_set_cold) simp_all
  then show ?case
    using Cons.IH[OF Cons.prems(1)] Cons.prems(2) by (simp add: d)
qed

text \<open>
  Claim C6, amended. \<^verbatim>\<open>make_point_dict\<close> validates neither L nor K nor the coefficients:
  whenever the units of the output are set, the arrays of every file agree in shape and the
  indices lie in the area grid, registration succeeds, and without an initial state every
  outlet gets a ring of zeros whose length is the number of rows of its unit hydrograph.
\<close>

theorem registration_unvalidated:
  assumes "units od \<noteq> None" "list_all (uh_fits area) uh_files"
  shows "\<exists>pd od' cnt'.
     make_point_dict uh_files area od cnt rho None = Inr (pd, od', cnt', []) \<and>
     list_all (\<lambda>(key, d). ring d = Some (replicate (length (uh d)) 0)) pd \<and>
     list_all (\<lambda>f. \<exists>d. make_point f area od rho True = Inr d \<and>
                         length (uh d) = length (uf_unit_hydrograph f) \<and>
                         ring d = Some (replicate (length (uf_unit_hydrograph f)) 0)) uh_files"
proof -
  obtain pd cnt' where p: "make_points uh_files area od rho True [] (cnt\<lparr>points := 0\<rparr>) = Inr (pd, cnt')"
     "list_all (\<lambda>(key, d). ring d = Some (replicate (length (uh d)) 0)) pd"
    using make_points_fits[OF assms, of "[]" rho "cnt\<lparr>points := 0\<rparr>"] by auto
  have "list_all (\<lambda>f. \<exists>d. make_point f area od rho True = Inr d \<and>
                         length (uh d) = length (uf_unit_hydrograph f) \<and>
                         ring d = Some (replicate (length (uf_unit_hydrograph f)) 0)) uh_files"
    using assms(2) make_point_fits[OF assms(1)] by (simp add: list_all_iff)
  then show ?thesis
    using p by (simp add: make_point_dict_def)
qed

theorem registration_unvalidated_witness:
  "units c10_out_dict \<noteq> None \<and> list_all (uh_fits [[1]]) [c6_empty_uh, c6_uh] \<and>
   (\<exists>pd od' cnt'.
     make_point_dict [c6_empty_uh, c6_uh] [[1]] c10_out_dict counts0 1000 None =
       Inr (pd, od', cnt', []) \<and>
     list_all (\<lambda>(key, d). ring d = Some (replicate (length (uh d)) 0)) pd)"
proof -
  have h1: "units c10_out_dict \<noteq> None" by (simp add: c10_out_dict_def)
  have h2: "list_all (uh_fits [[1]]) [c6_empty_uh, c6_uh]"
    by (simp add: uh_fits_def c6_empty_uh_def c6_uh_def grid_at_def np_index_def)
  show ?thesis
    using h1 h2 registration_unvalidated[OF h1 h2, of counts0 1000] by blast
qed

section \<open>Restoring a state\<close>

lemma od_set_update:
  assumes "distinct (map fst pd)" "map_of pd k = Some d"
  shows "od_set pd k (g d) = map (\<lambda>(k', d'). if k' = k then (k', g d') else (k', d')) pd"
  using assms
proof (induction pd)
  case Nil
  then show ?case by simp
next
  case (Cons p pd)
  obtain k0 d0 where p: "p = (k0, d0)" by (cases p)
  show ?case
  proof (cases "k0 = k")
    case True
    have "\<forall>(k', d') \<in> set pd. k' \<noteq> k" using Cons.prems(1) True p by force
    then have "map (\<lambda>(k', d'). if k' = k then (k', g d') else (k', d')) pd = pd"
      by (intro map_idI) auto
    then show ?thesis using True p Cons.prems(2) by simp
  next
    case False
    then show ?thesis using Cons p by simp
  qed
qed

lemma map_of_keys: "map_of pd k = None \<longleftrightarrow> k \<notin> fst ` set pd"
  by (simp add: map_of_eq_None_iff)

lemma load_array_state_char:
  assumes "distinct (map fst pd)" "list_all (\<lambda>i. i < length xs \<and> i < length ys) is"
  shows "load_array_state m xs ys is pd =
     (if list_all (\<lambda>i. (ys ! i, xs ! i) \<in> fst ` set pd) is
      then Inr (map (restored m xs ys is) pd) else Inl KeyError)"
  using assms
proof (induction "is" arbitrary: pd)
  case Nil
  have "map (restored m xs ys []) pd = pd"
    by (intro map_idI) (auto simp: restored_def)
  then show ?case by simp
next
  case (Cons i "is")
  let ?k = "(ys ! i, xs ! i)"
  have bounds: "\<not> (length xs \<le> i \<or> length ys \<le> i)" using Cons.prems(2) by auto
  show ?case
  proof (cases "map_of pd ?k")
    case None
    then have "?k \<notin> fst ` set pd" by (simp add: map_of_keys)
    then show ?thesis using None bounds by simp
  next
    case (Some d)
    let ?upd = "\<lambda>(k', d'). if k' = ?k then (k', d'\<lparr>ring := Some (get_col1 m i)\<rparr>) else (k', d')"
    have in_keys: "?k \<in> fst ` set pd"
      using Some by (metis map_of_keys option.distinct(1))
    have os: "od_set pd ?k (d\<lparr>ring := Some (get_col1 m i)\<rparr>) = map ?upd pd"
      using od_set_update[OF Cons.prems(1) Some, of "\<lambda>d. d\<lparr>ring := Some (get_col1 m i)\<rparr>"] .
    have keys: "map fst (map ?upd pd) = map fst pd"
      by (induction pd) auto
    then have keys': "fst ` set (map ?upd pd) = fst ` set pd"
      by (metis list.set_map)
    have dist: "distinct (map fst (map ?upd pd))"
      by (subst keys) (rule Cons.prems(1))
    have IH: "load_array_state m xs ys is (map ?upd pd) =
       (if list_all (\<lambda>i. (ys ! i, xs ! i) \<in> fst ` set pd) is
        then Inr (map (restored m xs ys is) (map ?upd pd)) else Inl KeyError)"
      using Cons.IH[OF dist] Cons.prems(2) keys' by simp
    have pt: "restored m xs ys is (?upd p) = restored m xs ys (i # is) p" for p
    proof -
      obtain k' d' where p: "p = (k', d')" by (cases p)
      show ?thesis
      proof (cases "k' = ?k")
        case True
        then show ?thesis
          by (cases "filter (\<lambda>j. (ys ! j, xs ! j) = (ys ! i, xs ! i)) is")
             (simp_all add: p restored_def)
      next
        case False
        then have "(if (ys ! i, xs ! i) = k' then a else b) = b" for a b :: "nat list"
          by auto
        then show ?thesis using False by (simp add: p restored_def)
      qed
    qed
    have "map (restored m xs ys is) (map ?upd pd) = map (restored m xs ys (i # is)) pd"
      by (simp add: pt o_def)
    then show ?thesis
      using Some bounds os IH in_keys by simp
  qed
qed

lemma load_grid_state_char:
  "load_grid_state m pd =
     (if list_all (\<lambda>(key, d). get_col2 m (fst key) (snd key) \<noteq> None) pd
      then Inr (map (\<lambda>(key, d). (key, d\<lparr>ring := get_col2 m (fst key) (snd key)\<rparr>)) pd)
      else Inl IndexError)"
  by (induction pd) (auto split: option.splits)


text \<open>
  Claim C8, as stated, fails for a flat state: an outlet without a column is left without a
  ring and nothing is raised, and a column whose key is not registered raises KeyError.
\<close>

theorem restore_counterexample:
  "make_point_dict [c6_uh, c8_uh_b] [[1, 1], [1, 1]] c10_out_dict counts0 1000 (Some c8_state_a) =
     Inr ([((0, 0), c1_outlet\<lparr>ring := Some [3, 2, 0]\<rparr>),
           ((1, 1), c1_outlet\<lparr>xi := [1], yi := [1], outlet_x := 1, outlet_y := 1,
                              ring := None\<rparr>)],
          c10_out_dict\<lparr>lats := [0, 0], lons := [0, 0], outlet_xs := [0, 1],
                        outlet_ys := [0, 1]\<rparr>,
          counts0\<lparr>points := 2\<rparr>, [ReadingInitialState]) \<and>
   make_point_dict [c6_uh] [[1, 1], [1, 1]] c10_out_dict counts0 1000 (Some c8_state_ab) =
     Inl KeyError"
  by (simp add: make_point_dict_def make_point_def make_uh_def rows_mul_def bmul_def gather_def
        grid_at_def np_index_def broadcast_def c6_uh_def c8_uh_b_def c10_out_dict_def counts0_def
        c8_state_a_def c8_state_ab_def load_state_def get_col1_def c1_outlet_def)

text \<open>
  Claim C8, amended. For a flat state the loop runs over the columns of the state, in order:
  it raises KeyError when the key of a column is not registered, and otherwise every outlet
  gets the last column that carries its key, an outlet without a column keeping its entry
  unchanged. For a gridded state the loop runs over the registry: every outlet gets the
  column of the grid at its key, and IndexError is raised when a key lies outside the grid.
\<close>

theorem restore_by_snapshot_columns:
  assumes "distinct (map fst pd)"
  shows "(sf_Streamflow sf = A2 (row # rows) \<and> length row \<le> length (sf_xi sf) \<and>
          length row \<le> length (sf_yi sf) \<longrightarrow>
          load_state sf pd =
            (if list_all (\<lambda>i. (sf_yi sf ! i, sf_xi sf ! i) \<in> fst ` set pd) [0 ..< length row]
             then Inr (map (restored (row # rows) (sf_xi sf) (sf_yi sf) [0 ..< length row]) pd)
             else Inl KeyError)) \<and>
         (sf_Streamflow sf = A3 m \<longrightarrow>
          load_state sf pd =
            (if list_all (\<lambda>(key, d). get_col2 m (fst key) (snd key) \<noteq> None) pd
             then Inr (map (\<lambda>(key, d). (key, d\<lparr>ring := get_col2 m (fst key) (snd key)\<rparr>)) pd)
             else Inl IndexError))"
proof (intro conjI impI)
  assume a: "sf_Streamflow sf = A2 (row # rows) \<and> length row \<le> length (sf_xi sf) \<and>
          length row \<le> length (sf_yi sf)"
  then have b: "list_all (\<lambda>i. i < length (sf_xi sf) \<and> i < length (sf_yi sf)) [0 ..< length row]"
    by (simp add: list_all_iff)
  show "load_state sf pd =
            (if list_all (\<lambda>i. (sf_yi sf ! i, sf_xi sf ! i) \<in> fst ` set pd) [0 ..< length row]
             then Inr (map (restored (row # rows) (sf_xi sf) (sf_yi sf) [0 ..< length row]) pd)
             else Inl KeyError)"
    using a load_array_state_char[OF assms b, of "row # rows"] by (simp add: load_state_def)
next
  assume "sf_Streamflow sf = A3 m"
  then show "load_state sf pd =
            (if list_all (\<lambda>(key, d). get_col2 m (fst key) (snd key) \<noteq> None) pd
             then Inr (map (\<lambda>(key, d). (key, d\<lparr>ring := get_col2 m (fst key) (snd key)\<rparr>)) pd)
             else Inl IndexError)"
    by (simp add: load_state_def load_grid_state_char)
qed

theorem restore_by_snapshot_columns_witness:
  "distinct (map fst c8_registry) \<and>
   load_state c8_state_a c8_registry =
     Inr [((0, 0), c1_outlet\<lparr>ring := Some [3, 2, 0]\<rparr>),
          ((1, 1), c1_outlet\<lparr>xi := [1], yi := [1], outlet_x := 1, outlet_y := 1, ring := None\<rparr>)]"
proof -
  have h: "distinct (map fst c8_registry)" by (simp add: c8_registry_def)
  show ?thesis
    using h restore_by_snapshot_columns[OF h, of c8_state_a "[3]" "[[2], [0]]"]
    by (simp add: c8_state_a_def c8_registry_def restored_def get_col1_def)
qed

section \<open>A flux that does not fit the contributing cells\<close>


lemma convolve_Cons:
  "convolve ((pt0, d0) # pre0) td flux rs shp =
     (case convolve_loop shp flux rs 0 ((pt0, d0) # pre0) (zeros shp)
             (if rs then Some (zeros_state (length (uh d0)) shp) else None) of
        Inl (e, pd) \<Rightarrow> Inl (e, pd)
      | Inr (pd, out_flow, out_state') \<Rightarrow>
          Inr (pd, out_flow, out_state',
               td\<lparr>out_state_time :=
                    (if rs then Some (map (\<lambda>t. t + time_step td) (time d0)) else None)\<rparr>))"
  by (simp only: convolve_def list.case prod.case Let_def)





section \<open>A timestep in which nothing raises\<close>

lemma convolve_point_InrD:
  assumes "convolve_point shp flux rs i pt d fl st = Inr (d', fl', st')"
  shows "\<exists>v r3. advance flux d = Some (v, r3) \<and> d' = d\<lparr>ring := Some r3\<rparr> \<and>
     put_flow shp i d v fl = Some fl' \<and>
     (if rs then \<exists>s s'. st = Some s \<and> put_state shp i pt r3 s = Inr s' \<and> st' = Some s'
      else st' = st)"
  using assms unfolding convolve_point_def advance_def put_flow_def put_state_def
  by (auto split: option.splits list.splits sum.splits if_splits)

lemma convolve_point_InrI:
  assumes "advance flux d = Some (v, r3)" "put_flow shp i d v fl = Some fl'"
    "if rs then \<exists>s s'. st = Some s \<and> put_state shp i pt r3 s = Inr s' \<and> st' = Some s' else st' = st"
  shows "convolve_point shp flux rs i pt d fl st = Inr (d\<lparr>ring := Some r3\<rparr>, fl', st')"
  using assms unfolding convolve_point_def advance_def put_flow_def put_state_def
  by (auto split: option.splits list.splits sum.splits if_splits)

lemma iadd_length: "iadd r c = Some r1 \<Longrightarrow> length r1 = length r"
  by (auto simp: iadd_def split: if_splits)

lemma shift_length: "shift l k = Inr l' \<Longrightarrow> length l' = length l"
  by (auto simp: shift_def Let_def split: if_splits)

lemma advance_length:
  assumes "advance flux d = Some (v, r3)" "ring_length l d"
  shows "length r3 = l"
proof -
  from assms obtain r0 vals c r1 k where
    a: "ring d = Some r0" "iadd r0 c = Some r1" "shift (r1[k := 0]) 1 = Inr r3"
    unfolding advance_def by (auto split: option.splits list.splits sum.splits)
  have "length r3 = length (r1[k := 0])" using a(3) by (rule shift_length)
  also have "\<dots> = length r0" using iadd_length[OF a(2)] by simp
  finally show ?thesis using assms(2) a(1) by (simp add: ring_length_def)
qed

lemma convolve_loop_InrD:
  assumes "convolve_loop shp flux rs i pd fl st = Inr (pd', fl', st')"
  shows "pd' = step_reg flux pd"
  using assms
proof (induction pd arbitrary: i fl st pd')
  case Nil
  then show ?case by (simp add: step_reg_def)
next
  case (Cons p pd)
  obtain pt d where p: "p = (pt, d)" by (cases p)
  from Cons.prems obtain d1 fl1 st1 rest' where
    a: "convolve_point shp flux rs i pt d fl st = Inr (d1, fl1, st1)"
    and b: "convolve_loop shp flux rs (Suc i) pd fl1 st1 = Inr (rest', fl', st')"
    and c: "pd' = (pt, d1) # rest'"
    by (auto simp: p split: sum.splits prod.splits)
  from convolve_point_InrD[OF a] obtain v r3 where
    d1: "advance flux d = Some (v, r3)" "d1 = d\<lparr>ring := Some r3\<rparr>" by auto
  show ?case
    using Cons.IH[OF b] c d1 by (simp add: step_reg_def p)
qed

lemma convolve_loop_without_state:
  assumes "convolve_loop shp flux True i pd fl st = Inr (pd', fl', st')"
  shows "convolve_loop shp flux False i pd fl None = Inr (pd', fl', None)"
  using assms
proof (induction pd arbitrary: i fl st pd')
  case Nil
  then show ?case by simp
next
  case (Cons p pd)
  obtain pt d where p: "p = (pt, d)" by (cases p)
  from Cons.prems obtain d1 fl1 st1 rest' where
    a: "convolve_point shp flux True i pt d fl st = Inr (d1, fl1, st1)"
    and b: "convolve_loop shp flux True (Suc i) pd fl1 st1 = Inr (rest', fl', st')"
    and c: "pd' = (pt, d1) # rest'"
    by (auto simp: p split: sum.splits prod.splits)
  from convolve_point_InrD[OF a] obtain v r3 where
    d1: "advance flux d = Some (v, r3)" "d1 = d\<lparr>ring := Some r3\<rparr>"
      "put_flow shp i d v fl = Some fl1" by auto
  have "convolve_point shp flux False i pt d fl None = Inr (d1, fl1, None)"
    using convolve_point_InrI[OF d1(1) d1(3), where rs = False and st = None and st' = None
        and pt = pt] d1(2) by simp
  then show ?case
    using Cons.IH[OF b] c by (simp add: p)
qed

section \<open>Capturing a flat state\<close>

lemma np_index_nat: "i < n \<Longrightarrow> np_index n (int i) = Some i"
  by (simp add: np_index_def)

lemma set_col1_flat:
  assumes "flat_ok l n m" "i < n" "length r = l"
  shows "\<exists>m'. set_col1 (A2 m) (int i) r = Inr (A2 m') \<and> flat_ok l n m' \<and>
     get_col1 m' i = r \<and> (\<forall>j. j \<noteq> i \<longrightarrow> get_col1 m' j = get_col1 m j)"
proof -
  let ?m' = "map (\<lambda>(row, w). row[i := w]) (zip m r)"
  have len: "length m = length r" and rows: "\<forall>row \<in> set m. length row = n"
    using assms by (simp_all add: flat_ok_def list_all_iff)
  have idx: "list_all (\<lambda>row. np_index (length row) (int i) \<noteq> None) m"
    using rows assms(2) by (simp add: list_all_iff np_index_nat)
  have "map (\<lambda>(row, w). row[the (np_index (length row) (int i)) := w]) (zip m r) = ?m'"
    using rows assms(2) by (intro map_cong) (auto simp: np_index_nat dest: set_zip_leftD)
  then have s: "set_col1 (A2 m) (int i) r = Inr (A2 ?m')"
    using idx len by (simp add: set_col1_def fit_def)
  have ok: "flat_ok l n ?m'"
    using assms(1,3) rows len by (auto simp: flat_ok_def list_all_iff dest: set_zip_leftD)
  have same: "get_col1 ?m' i = r"
    using len rows assms(2)
    by (intro nth_equalityI) (auto simp: get_col1_def)
  have other: "get_col1 ?m' j = get_col1 m j" if "j \<noteq> i" for j
    using len that by (intro nth_equalityI) (auto simp: get_col1_def)
  show ?thesis using s ok same other by blast
qed

lemma capture_flat:
  assumes "convolve_loop (Shape1 n0) flux False i pd fl None = Inr (pd', fl', None)"
    "flat_ok l n m" "i + length pd \<le> n" "list_all (\<lambda>(key, d). ring_length l d) pd"
  shows "\<exists>m'. convolve_loop (Shape1 n0) flux True i pd fl (Some (A2 m)) =
                 Inr (pd', fl', Some (A2 m')) \<and>
     flat_ok l n m' \<and>
     (\<forall>j < length pd. get_col1 m' (i + j) = the (ring (snd (pd' ! j)))) \<and>
     (\<forall>j < i. get_col1 m' j = get_col1 m j)"
  using assms
proof (induction pd arbitrary: i fl m pd')
  case Nil
  then show ?case by simp
next
  case (Cons p pd)
  obtain pt d where p: "p = (pt, d)" by (cases p)
  from Cons.prems(1) obtain d1 fl1 st1 rest' where
    a: "convolve_point (Shape1 n0) flux False i pt d fl None = Inr (d1, fl1, st1)"
    and b: "convolve_loop (Shape1 n0) flux False (Suc i) pd fl1 st1 = Inr (rest', fl', None)"
    and c: "pd' = (pt, d1) # rest'"
    by (auto simp: p split: sum.splits prod.splits)
  from convolve_point_InrD[OF a] obtain v r3 where
    d1: "advance flux d = Some (v, r3)" "d1 = d\<lparr>ring := Some r3\<rparr>"
      "put_flow (Shape1 n0) i d v fl = Some fl1" and st1: "st1 = None" by auto
  have len: "length r3 = l"
    using advance_length[OF d1(1)] Cons.prems(4) by (simp add: p)
  have "i < n" using Cons.prems(3) by simp
  from set_col1_flat[OF Cons.prems(2) this len] obtain m1 where
    m1: "set_col1 (A2 m) (int i) r3 = Inr (A2 m1)" "flat_ok l n m1" "get_col1 m1 i = r3"
      "\<forall>j. j \<noteq> i \<longrightarrow> get_col1 m1 j = get_col1 m j" by blast
  have cp: "convolve_point (Shape1 n0) flux True i pt d fl (Some (A2 m)) =
      Inr (d1, fl1, Some (A2 m1))"
    using convolve_point_InrI[OF d1(1) d1(3), where rs = True and st = "Some (A2 m)"
        and st' = "Some (A2 m1)" and pt = pt] m1(1) d1(2)
    by (simp add: put_state_def)
  have "Suc i + length pd \<le> n" using Cons.prems(3) by simp
  moreover have "list_all (\<lambda>(key, d). ring_length l d) pd" using Cons.prems(4) by simp
  ultimately obtain m' where
    m': "convolve_loop (Shape1 n0) flux True (Suc i) pd fl1 (Some (A2 m1)) =
           Inr (rest', fl', Some (A2 m'))" "flat_ok l n m'"
      "\<forall>j < length pd. get_col1 m' (Suc i + j) = the (ring (snd (rest' ! j)))"
      "\<forall>j < Suc i. get_col1 m' j = get_col1 m1 j"
    using Cons.IH[OF b[unfolded st1] m1(2)] by blast
  have cols: "get_col1 m' (i + j) = the (ring (snd (pd' ! j)))" if "j < length (p # pd)" for j
  proof (cases j)
    case 0
    then show ?thesis using m'(4) m1(3) c d1(2) by simp
  next
    case (Suc j')
    then show ?thesis using m'(3) that c by simp
  qed
  have old: "get_col1 m' j = get_col1 m j" if "j < i" for j
    using m'(4) m1(4) that by simp
  show ?case
    using m'(1,2) cols old by (simp add: p cp c)
qed

section \<open>What a timestep preserves\<close>

lemma convolve_InrD:
  assumes "convolve pd td flux rs shp = Inr (pd', fl, st, td')"
  shows "\<exists>pt0 d0 pd0. pd = (pt0, d0) # pd0 \<and>
     convolve_loop shp flux rs 0 pd (zeros shp)
       (if rs then Some (zeros_state (length (uh d0)) shp) else None) = Inr (pd', fl, st) \<and>
     td' = td\<lparr>out_state_time :=
                (if rs then Some (map (\<lambda>t. t + time_step td) (time d0)) else None)\<rparr>"
proof -
  from assms obtain pt0 d0 pd0 where pd: "pd = (pt0, d0) # pd0"
    by (cases pd) (auto simp: convolve_def)
  define X where "X = convolve_loop shp flux rs 0 ((pt0, d0) # pd0) (zeros shp)
       (if rs then Some (zeros_state (length (uh d0)) shp) else None)"
  have "(case X of Inl (e, pd) \<Rightarrow> Inl (e, pd)
         | Inr (pd, out_flow, out_state') \<Rightarrow>
             Inr (pd, out_flow, out_state',
                  td\<lparr>out_state_time :=
                       (if rs then Some (map (\<lambda>t. t + time_step td) (time d0)) else None)\<rparr>)) =
        Inr (pd', fl, st, td')"
    using assms unfolding pd convolve_Cons X_def .
  then have "X = Inr (pd', fl, st) \<and> td' = td\<lparr>out_state_time :=
                (if rs then Some (map (\<lambda>t. t + time_step td) (time d0)) else None)\<rparr>"
    by (cases X) (auto split: prod.splits)
  then show ?thesis unfolding X_def pd by blast
qed

lemma convolve_InrI:
  assumes "convolve_loop shp flux rs 0 ((pta, da) # pda) (zeros shp)
       (if rs then Some (zeros_state (length (uh da)) shp) else None) = Inr (pd', fl, st)"
  shows "convolve ((pta, da) # pda) td flux rs shp =
     Inr (pd', fl, st, td\<lparr>out_state_time :=
                (if rs then Some (map (\<lambda>t. t + time_step td) (time da)) else None)\<rparr>)"
  unfolding convolve_Cons assms by simp

lemma advance_loop:
  assumes "convolve_loop shp flux rs i pd fl st = Inr (pd', fl', st')"
  shows "list_all (\<lambda>(key, d). advance flux d \<noteq> None) pd"
  using assms
proof (induction pd arbitrary: i fl st pd')
  case Nil
  then show ?case by simp
next
  case (Cons p pd)
  obtain pt d where p: "p = (pt, d)" by (cases p)
  from Cons.prems obtain d1 fl1 st1 rest' where
    a: "convolve_point shp flux rs i pt d fl st = Inr (d1, fl1, st1)"
    and b: "convolve_loop shp flux rs (Suc i) pd fl1 st1 = Inr (rest', fl', st')"
    by (auto simp: p split: sum.splits prod.splits)
  from convolve_point_InrD[OF a] Cons.IH[OF b] show ?case by (auto simp: p)
qed

lemma strip_step_reg: "strip (step_reg flux pd) = strip pd"
  by (simp add: strip_def step_reg_def case_prod_unfold o_def)

lemma keys_step_reg: "map fst (step_reg flux pd) = map fst pd"
  by (simp add: step_reg_def case_prod_unfold o_def)

lemma wf_step_reg:
  assumes "wf_registry l pd" "list_all (\<lambda>(key, d). advance flux d \<noteq> None) pd"
  shows "wf_registry l (step_reg flux pd)"
proof -
  have "list_all (\<lambda>(key, d). key = (outlet_y d, outlet_x d) \<and> length (uh d) = l \<and>
          ring_length l d) (step_reg flux pd)"
    unfolding list_all_iff step_reg_def
  proof (clarsimp)
    fix a b d assume in_pd: "((a, b), d) \<in> set pd"
    then have k: "(a, b) = (outlet_y d, outlet_x d)" "length (uh d) = l" "ring_length l d"
      using assms(1) by (auto simp: wf_registry_def list_all_iff)
    obtain v r3 where adv: "advance flux d = Some (v, r3)"
      using assms(2) in_pd by (auto simp: list_all_iff)
    have "length r3 = l" using advance_length[OF adv k(3)] .
    then show "a = outlet_y d \<and> b = outlet_x d \<and> length (uh d) = l \<and>
        ring_length l (d\<lparr>ring := map_option snd (advance flux d)\<rparr>)"
      using k adv by (simp add: ring_length_def)
  qed
  then show ?thesis
    using assms(1) by (simp add: wf_registry_def keys_step_reg)
qed

lemma wf_convolve:
  assumes "convolve pd td flux rs shp = Inr (pd', fl, st, td')" "wf_registry l pd"
  shows "wf_registry l pd' \<and> strip pd' = strip pd \<and> length pd' = length pd"
proof -
  from convolve_InrD[OF assms(1)] obtain st0 where
    l: "convolve_loop shp flux rs 0 pd (zeros shp) st0 = Inr (pd', fl, st)" by blast
  have pd': "pd' = step_reg flux pd" using convolve_loop_InrD[OF l] .
  show ?thesis
    using wf_step_reg[OF assms(2) advance_loop[OF l]] 
    by (simp add: pd' strip_step_reg) (simp add: step_reg_def)
qed

section \<open>Restoring a captured flat state\<close>

lemma flat_ok_zeros: "flat_ok l n (replicate l (replicate n 0))"
  by (simp add: flat_ok_def list_all_iff)

lemma convolve_loop_keeps_state:
  assumes "convolve_loop shp flux False i pd fl st = Inr (pd', fl', st')"
  shows "st' = st"
  using assms
proof (induction pd arbitrary: i fl pd')
  case Nil
  then show ?case by simp
next
  case (Cons p pd)
  obtain pt d where p: "p = (pt, d)" by (cases p)
  from Cons.prems obtain d1 fl1 st1 rest' where
    a: "convolve_point shp flux False i pt d fl st = Inr (d1, fl1, st1)"
    and b: "convolve_loop shp flux False (Suc i) pd fl1 st1 = Inr (rest', fl', st')"
    by (auto simp: p split: sum.splits prod.splits)
  from convolve_point_InrD[OF a] have "st1 = st" by auto
  then show ?case using Cons.IH b by simp
qed

lemma convolve_capture_flat:
  assumes "convolve pd td flux False (Shape1 n) = Inr (pd', fl, st0, td')"
    "wf_registry l pd" "length pd \<le> n"
  shows "\<exists>m. convolve pd td flux True (Shape1 n) =
               Inr (pd', fl, Some (A2 m),
                    td\<lparr>out_state_time :=
                         Some (map (\<lambda>t. t + time_step td) (time (snd (hd pd))))\<rparr>) \<and>
     flat_ok l n m \<and> (\<forall>j < length pd. get_col1 m j = the (ring (snd (pd' ! j))))"
proof -
  from convolve_InrD[OF assms(1)] obtain pt0 d0 pd0 where
    pd: "pd = (pt0, d0) # pd0"
    and l: "convolve_loop (Shape1 n) flux False 0 pd (zeros (Shape1 n)) None = Inr (pd', fl, st0)"
    by auto
  have st0: "st0 = None" using convolve_loop_keeps_state[OF l] .
  have rl: "list_all (\<lambda>(key, d). ring_length l d) pd"
    using assms(2) by (auto simp: wf_registry_def list_all_iff)
  have l0: "length (uh d0) = l"
    using assms(2) by (simp add: wf_registry_def pd)
  from capture_flat[OF l[unfolded st0] flat_ok_zeros[of l n] _ rl] assms(3)
  obtain m where m: "convolve_loop (Shape1 n) flux True 0 pd (zeros (Shape1 n))
        (Some (A2 (replicate l (replicate n 0)))) = Inr (pd', fl, Some (A2 m))"
     "flat_ok l n m" "\<forall>j < length pd. get_col1 m (0 + j) = the (ring (snd (pd' ! j)))"
    by auto
  have "convolve pd td flux True (Shape1 n) =
      Inr (pd', fl, Some (A2 m),
           td\<lparr>out_state_time := Some (map (\<lambda>t. t + time_step td) (time (snd (hd pd))))\<rparr>)"
    using convolve_InrI[where rs = True and shp = "Shape1 n" and pta = pt0 and da = d0
        and pda = pd0 and flux = flux and pd' = pd' and fl = fl and st = "Some (A2 m)" and td = td]
      m(1)
    by (simp add: pd zeros_state_def l0)
  then show ?thesis using m(2,3) by auto
qed

lemma filter_eq_upt: "i < n \<Longrightarrow> filter (\<lambda>j. j = i) [0 ..< n] = [i]"
  by (induction n) (auto simp: less_Suc_eq)

lemma filter_key_upt:
  assumes "distinct ks" "i < length ks"
  shows "filter (\<lambda>j. ks ! j = ks ! i) [0 ..< length ks] = [i]"
proof -
  have "filter (\<lambda>j. ks ! j = ks ! i) [0 ..< length ks] = filter (\<lambda>j. j = i) [0 ..< length ks]"
    using assms by (intro filter_cong) (auto simp: nth_eq_iff_index_eq)
  then show ?thesis using assms(2) by (simp add: filter_eq_upt)
qed

lemma restore_flat:
  assumes "wf_registry l P" "flat_ok l (length P) m" "0 < l"
    "\<forall>j < length P. get_col1 m j = the (ring (snd (P ! j)))"
  shows "load_state \<lparr>sf_Streamflow = A2 m, sf_xi = map (\<lambda>(key, d). outlet_x d) P,
                     sf_yi = map (\<lambda>(key, d). outlet_y d) P, sf_time = tm\<rparr> (strip P) = Inr P"
proof -
  let ?n = "length P"
  let ?xs = "map (\<lambda>(key, d). outlet_x d) P" and ?ys = "map (\<lambda>(key, d). outlet_y d) P"
  obtain row rows where m: "m = row # rows" and row: "length row = ?n"
    using assms(2,3) by (cases m) (auto simp: flat_ok_def)
  have keys_strip: "map fst (strip P) = map fst P"
    by (simp add: strip_def case_prod_unfold o_def)
  have dist: "distinct (map fst (strip P))"
    using assms(1) by (simp add: keys_strip wf_registry_def)
  have key: "(?ys ! i, ?xs ! i) = map fst P ! i" if "i < ?n" for i
    using assms(1) that by (auto simp: wf_registry_def list_all_length case_prod_unfold)
  have reg: "list_all (\<lambda>i. (?ys ! i, ?xs ! i) \<in> fst ` set (strip P)) [0 ..< ?n]"
    unfolding list_all_iff
  proof
    fix i assume "i \<in> set [0 ..< ?n]"
    then have i: "i < ?n" by simp
    have "map fst P ! i \<in> set (map fst (strip P))"
      unfolding keys_strip using i by (intro nth_mem) simp
    then show "(?ys ! i, ?xs ! i) \<in> fst ` set (strip P)"
      using key[OF i] by simp
  qed
  have bounds: "list_all (\<lambda>i. i < length ?xs \<and> i < length ?ys) [0 ..< ?n]"
    by (simp add: list_all_iff)
  have "load_state \<lparr>sf_Streamflow = A2 m, sf_xi = ?xs, sf_yi = ?ys, sf_time = tm\<rparr> (strip P) =
      Inr (map (restored m ?xs ?ys [0 ..< ?n]) (strip P))"
    using load_array_state_char[OF dist bounds, of m] reg
    by (simp add: load_state_def m row)
  moreover have "map (restored m ?xs ?ys [0 ..< ?n]) (strip P) = P"
  proof (intro nth_equalityI)
    show "length (map (restored m ?xs ?ys [0 ..< ?n]) (strip P)) = length P"
      by (simp add: strip_def)
  next
    fix i assume "i < length (map (restored m ?xs ?ys [0 ..< ?n]) (strip P))"
    then have i: "i < ?n" by (simp add: strip_def)
    obtain k d where kd: "P ! i = (k, d)" by (cases "P ! i")
    have k: "k = map fst P ! i" using kd i by simp
    have "filter (\<lambda>j. (?ys ! j, ?xs ! j) = k) [0 ..< ?n] =
        filter (\<lambda>j. map fst P ! j = map fst P ! i) [0 ..< length (map fst P)]"
      using key k by (intro filter_cong) auto
    also have "\<dots> = [i]"
      using assms(1) i by (intro filter_key_upt) (simp_all add: wf_registry_def)
    finally have f: "filter (\<lambda>j. (?ys ! j, ?xs ! j) = k) [0 ..< ?n] = [i]" .
    have "ring_length l d"
      using assms(1) i kd by (auto simp: wf_registry_def list_all_length)
    then obtain r where r: "ring d = Some r" by (auto simp: ring_length_def split: option.splits)
    have col: "get_col1 m i = r" using assms(4) i kd r by simp
    have "restored m ?xs ?ys [0 ..< ?n] (strip P ! i) = (k, d\<lparr>ring := None, ring := Some r\<rparr>)"
      using i kd f col by (simp add: strip_def restored_def)
    also have "\<dots> = (k, d)" using r by simp
    finally show "map (restored m ?xs ?ys [0 ..< ?n]) (strip P) ! i = P ! i"
      using i kd by (simp add: strip_def)
  qed
  ultimately show ?thesis by simp
qed

section \<open>Sequences of timesteps\<close>

lemma convolve_td:
  "convolve pd td flux False shp =
     (case convolve pd td' flux False shp of
        Inl e \<Rightarrow> Inl e
      | Inr (pd', fl, st, _) \<Rightarrow> Inr (pd', fl, st, td\<lparr>out_state_time := None\<rparr>))"
proof (cases pd)
  case Nil
  then show ?thesis by (simp add: convolve_def)
next
  case (Cons p pd0)
  obtain pt d where p: "p = (pt, d)" by (cases p)
  show ?thesis
    unfolding Cons p convolve_Cons
    by (simp del: convolve_loop.simps split: sum.splits prod.splits)
qed

lemma convolve_seq_td: "convolve_seq pd td fs shp = convolve_seq pd td' fs shp"
proof (induction fs arbitrary: pd td td')
  case Nil
  then show ?case by simp
next
  case (Cons f fs)
  show ?case
  proof (cases "convolve pd td' f False shp")
    case (Inl e)
    then show ?thesis using convolve_td[of pd td f shp td'] by simp
  next
    case (Inr r)
    obtain pd1 fl st td1 where r: "r = (pd1, fl, st, td1)" by (cases r)
    have "convolve pd td f False shp = Inr (pd1, fl, st, td\<lparr>out_state_time := None\<rparr>)"
      using convolve_td[of pd td f shp td'] Inr r by simp
    then show ?thesis
      using Inr r Cons.IH[of pd1 "td\<lparr>out_state_time := None\<rparr>" td1] by simp
  qed
qed

lemma convolve_seq_append:
  "convolve_seq pd td (fs @ gs) shp =
     (case convolve_seq pd td fs shp of
        Inl e \<Rightarrow> Inl e
      | Inr (pd', outs) \<Rightarrow>
          (case convolve_seq pd' td gs shp of
             Inl e \<Rightarrow> Inl e
           | Inr (pd'', outs') \<Rightarrow> Inr (pd'', outs @ outs')))"
proof (induction fs arbitrary: pd td)
  case Nil
  then show ?case by (simp split: sum.splits prod.splits)
next
  case (Cons f fs)
  show ?case
  proof (cases "convolve pd td f False shp")
    case (Inl e)
    then show ?thesis by simp
  next
    case (Inr r)
    obtain pd1 fl st td1 where r: "r = (pd1, fl, st, td1)" by (cases r)
    have t: "convolve_seq pd' td1 gs shp = convolve_seq pd' td gs shp" for pd'
      by (rule convolve_seq_td)
    show ?thesis
      using Inr r Cons.IH[of pd1 td1] by (simp add: t split: sum.splits prod.splits)
  qed
qed

lemma wf_convolve_seq:
  assumes "convolve_seq pd td fs shp = Inr (pd', outs)" "wf_registry l pd"
  shows "wf_registry l pd' \<and> strip pd' = strip pd \<and> length pd' = length pd"
  using assms
proof (induction fs arbitrary: pd td pd' outs)
  case Nil
  then show ?case by simp
next
  case (Cons f fs)
  from Cons.prems(1) obtain pd1 fl st td1 outs1 where
    a: "convolve pd td f False shp = Inr (pd1, fl, st, td1)"
    and b: "convolve_seq pd1 td1 fs shp = Inr (pd', outs1)"
    by (auto split: sum.splits prod.splits)
  from wf_convolve[OF a Cons.prems(2)] Cons.IH[OF b] show ?case by simp
qed

lemma advance_pos:
  assumes "advance flux d = Some (v, r3)" "ring_length l d"
  shows "0 < l"
proof -
  from assms(1) obtain r0 c r1 rest where
    a: "ring d = Some r0" "iadd r0 c = Some r1" "r1 = v # rest"
    unfolding advance_def by (auto split: option.splits list.splits sum.splits)
  have "length r1 = length r0" using a(2) by (rule iadd_length)
  then show ?thesis using assms(2) a(1,3) by (auto simp: ring_length_def)
qed

lemma convolve_pos:
  assumes "convolve pd td flux rs shp = Inr (pd', fl, st, td')" "wf_registry l pd"
  shows "0 < l"
proof -
  from convolve_InrD[OF assms(1)] obtain pt0 d0 pd0 st0 where
    pd: "pd = (pt0, d0) # pd0"
    and l: "convolve_loop shp flux rs 0 pd (zeros shp) st0 = Inr (pd', fl, st)" by blast
  have "advance flux d0 \<noteq> None" using advance_loop[OF l] by (simp add: pd)
  moreover have "ring_length l d0" using assms(2) by (simp add: wf_registry_def pd)
  ultimately show ?thesis using advance_pos by auto
qed

lemma coords_strip:
  "map (\<lambda>(key, d). outlet_x d) (strip pd) = map (\<lambda>(key, d). outlet_x d) pd"
  "map (\<lambda>(key, d). outlet_y d) (strip pd) = map (\<lambda>(key, d). outlet_y d) pd"
  by (simp_all add: strip_def case_prod_unfold o_def)

section \<open>Capturing and restoring a gridded state\<close>

lemma np_index_less: "np_index n i = Some j \<Longrightarrow> j < n"
  by (auto simp: np_index_def split: if_splits)

lemma shape_ok_row: "shape_ok ny nx g \<Longrightarrow> j < ny \<Longrightarrow> length (g ! j) = nx"
  by (simp add: shape_ok_def list_all_length)

lemma grid_at_shape:
  assumes "shape_ok ny nx g"
  shows "grid_at g r c =
     (case cell ny nx (r, c) of (Some j, Some k) \<Rightarrow> Some (g ! j ! k) | _ \<Rightarrow> None)"
proof (cases "np_index ny r")
  case None
  then show ?thesis using assms by (simp add: grid_at_def cell_def shape_ok_def)
next
  case (Some j)
  then have "length (g ! j) = nx" using assms np_index_less shape_ok_row by blast
  then show ?thesis
    using Some assms by (simp add: grid_at_def cell_def shape_ok_def split: option.splits)
qed

lemma set_item2_shape:
  assumes "shape_ok ny nx g"
  shows "set_item2 (A2 g) r c w =
     (case cell ny nx (r, c) of
        (Some j, Some k) \<Rightarrow> Some (A2 (g[j := (g ! j)[k := w]]))
      | _ \<Rightarrow> None)"
proof (cases "np_index ny r")
  case None
  then show ?thesis using assms by (simp add: set_item2_def cell_def shape_ok_def)
next
  case (Some j)
  then have "length (g ! j) = nx" using assms np_index_less shape_ok_row by blast
  then show ?thesis
    using Some assms by (simp add: set_item2_def cell_def shape_ok_def split: option.splits)
qed

lemma shape_ok_update:
  assumes "shape_ok ny nx g"
  shows "shape_ok ny nx (g[j := (g ! j)[k := w]])"
proof -
  have "length (g[j := (g ! j)[k := w]] ! n) = nx" if "n < length g" for n
    using assms that by (cases "n = j") (simp_all add: shape_ok_def list_all_length)
  then show ?thesis using assms by (simp add: shape_ok_def list_all_length)
qed

lemma set_item2_shape_ok:
  assumes "shape_ok ny nx g" "set_item2 (A2 g) r c w = Some fl'"
  shows "\<exists>g'. fl' = A2 g' \<and> shape_ok ny nx g' \<and> (\<exists>j k. cell ny nx (r, c) = (Some j, Some k))"
  using assms(2) shape_ok_update[OF assms(1)]
  unfolding set_item2_shape[OF assms(1)]
  by (auto split: option.splits prod.splits)

lemma those_map_eq_Some:
  "those (map f xs) = Some ys \<longleftrightarrow> map f xs = map Some ys"
proof (induction xs arbitrary: ys)
  case Nil
  then show ?case by auto
next
  case (Cons a xs)
  then show ?case by (cases ys) (auto split: option.splits)
qed

lemma set_col2_grid:
  assumes "grid_ok l ny nx m" "cell ny nx (r, c) = (Some j, Some k)" "length vs = l"
  shows "\<exists>m'. set_col2 (A3 m) r c vs = Inr (A3 m') \<and> grid_ok l ny nx m' \<and>
     get_col2 m' r c = Some vs \<and>
     (\<forall>r' c'. cell ny nx (r', c') \<noteq> (Some j, Some k) \<longrightarrow> get_col2 m' r' c' = get_col2 m r' c')"
proof -
  let ?m' = "map (\<lambda>(g, w). g[j := (g ! j)[k := w]]) (zip m vs)"
  have len: "length m = length vs" and shapes: "\<forall>g \<in> set m. shape_ok ny nx g"
    using assms(1,3) by (simp_all add: grid_ok_def list_all_iff)
  have jk: "j < ny" "k < nx"
    using assms(2) by (auto simp: cell_def dest: np_index_less)
  have idx: "list_all (\<lambda>g. set_item2 (A2 g) r c 0 \<noteq> None) m"
    unfolding list_all_iff
  proof
    fix g assume "g \<in> set m"
    then have "shape_ok ny nx g" using shapes by simp
    then show "set_item2 (A2 g) r c 0 \<noteq> None"
      using assms(2) by (simp add: set_item2_shape)
  qed
  have "(case set_item2 (A2 g) r c w of Some (A2 g') \<Rightarrow> g' | _ \<Rightarrow> g) = g[j := (g ! j)[k := w]]"
    if "(g, w) \<in> set (zip m vs)" for g w
  proof -
    have "shape_ok ny nx g" using that shapes by (auto dest: set_zip_leftD)
    then show ?thesis using assms(2) by (simp add: set_item2_shape)
  qed
  then have "map (\<lambda>(g, w). case set_item2 (A2 g) r c w of Some (A2 g') \<Rightarrow> g' | _ \<Rightarrow> g) (zip m vs) = ?m'"
    by (intro map_cong) auto
  then have s: "set_col2 (A3 m) r c vs = Inr (A3 ?m')"
    using idx len by (simp add: set_col2_def fit_def)
  have ok: "grid_ok l ny nx ?m'"
    using assms(1,3) shapes len shape_ok_update
    by (auto simp: grid_ok_def list_all_iff dest: set_zip_leftD)
  have shapes': "\<forall>g \<in> set ?m'. shape_ok ny nx g"
    using ok by (simp add: grid_ok_def list_all_iff)
  have same: "get_col2 ?m' r c = Some vs"
    unfolding get_col2_def those_map_eq_Some
  proof (intro nth_equalityI)
    show "length (map (\<lambda>g. grid_at g r c) ?m') = length (map Some vs)" using len by simp
  next
    fix i assume "i < length (map (\<lambda>g. grid_at g r c) ?m')"
    then have i: "i < length m" "i < length vs" using len by simp_all
    have sh: "shape_ok ny nx (m ! i)" using shapes i by simp
    have sh': "shape_ok ny nx ((m ! i)[j := (m ! i ! j)[k := vs ! i]])"
      using shape_ok_update[OF sh] .
    have "length (m ! i) = ny" using sh by (simp add: shape_ok_def)
    then have "grid_at ((m ! i)[j := (m ! i ! j)[k := vs ! i]]) r c = Some (vs ! i)"
      unfolding grid_at_shape[OF sh']
      using assms(2) jk shape_ok_row[OF sh jk(1)] by simp
    then show "map (\<lambda>g. grid_at g r c) ?m' ! i = map Some vs ! i"
      using i by simp
  qed
  have other: "get_col2 ?m' r' c' = get_col2 m r' c'"
    if ne: "cell ny nx (r', c') \<noteq> (Some j, Some k)" for r' c'
  proof -
    have "map (\<lambda>g. grid_at g r' c') ?m' = map (\<lambda>g. grid_at g r' c') m"
    proof (intro nth_equalityI)
      show "length (map (\<lambda>g. grid_at g r' c') ?m') = length (map (\<lambda>g. grid_at g r' c') m)"
        using len by simp
    next
      fix i assume "i < length (map (\<lambda>g. grid_at g r' c') ?m')"
      then have i: "i < length m" "i < length vs" using len by simp_all
      have sh: "shape_ok ny nx (m ! i)" using shapes i by simp
      have sh': "shape_ok ny nx ((m ! i)[j := (m ! i ! j)[k := vs ! i]])"
        using shape_ok_update[OF sh] .
      have "length (m ! i) = ny" using sh by (simp add: shape_ok_def)
      then have "grid_at ((m ! i)[j := (m ! i ! j)[k := vs ! i]]) r' c' = grid_at (m ! i) r' c'"
        unfolding grid_at_shape[OF sh] grid_at_shape[OF sh']
        using ne jk
        by (auto simp: nth_list_update split: option.splits prod.splits)
      then show "map (\<lambda>g. grid_at g r' c') ?m' ! i = map (\<lambda>g. grid_at g r' c') m ! i"
        using i by simp
    qed
    then show ?thesis by (simp add: get_col2_def)
  qed
  show ?thesis using s ok same other by blast
qed

lemma capture_grid:
  assumes "convolve_loop (Shape2 a b) flux False i pd fl None = Inr (pd', fl', None)"
    "grid_ok l ny nx m" "fl = A2 g" "shape_ok ny nx g"
    "list_all (\<lambda>(key, d). ring_length l d \<and> key = (outlet_y d, outlet_x d)) pd"
    "distinct (map (\<lambda>(key, d). cell ny nx key) pd)"
  shows "\<exists>m'. convolve_loop (Shape2 a b) flux True i pd fl (Some (A3 m)) =
                 Inr (pd', fl', Some (A3 m')) \<and>
     grid_ok l ny nx m' \<and>
     (\<forall>j < length pd. get_col2 m' (fst (fst (pd ! j))) (snd (fst (pd ! j))) =
                        ring (snd (pd' ! j))) \<and>
     (\<forall>r c. cell ny nx (r, c) \<notin> set (map (\<lambda>(key, d). cell ny nx key) pd) \<longrightarrow>
             get_col2 m' r c = get_col2 m r c)"
  using assms
proof (induction pd arbitrary: i fl g m pd')
  case Nil
  then show ?case by simp
next
  case (Cons p pd)
  obtain pt d where p: "p = (pt, d)" by (cases p)
  from Cons.prems(1) obtain d1 fl1 st1 rest' where
    a: "convolve_point (Shape2 a b) flux False i pt d fl None = Inr (d1, fl1, st1)"
    and b: "convolve_loop (Shape2 a b) flux False (Suc i) pd fl1 st1 = Inr (rest', fl', None)"
    and c: "pd' = (pt, d1) # rest'"
    by (auto simp: p split: sum.splits prod.splits)
  from convolve_point_InrD[OF a] obtain v r3 where
    d1: "advance flux d = Some (v, r3)" "d1 = d\<lparr>ring := Some r3\<rparr>"
      "put_flow (Shape2 a b) i d v fl = Some fl1" and st1: "st1 = None" by auto
  have pt: "pt = (outlet_y d, outlet_x d)" and rl: "ring_length l d"
    using Cons.prems(5) by (simp_all add: p)
  have len: "length r3 = l" using advance_length[OF d1(1) rl] .
  have "set_item2 (A2 g) (outlet_y d) (outlet_x d) v = Some fl1"
    using d1(3) Cons.prems(3) by (simp add: put_flow_def)
  from set_item2_shape_ok[OF Cons.prems(4) this] obtain g1 j k where
    g1: "fl1 = A2 g1" "shape_ok ny nx g1" and jk: "cell ny nx (fst pt, snd pt) = (Some j, Some k)"
    using pt by auto
  from set_col2_grid[OF Cons.prems(2) jk len] obtain m1 where
    m1: "set_col2 (A3 m) (fst pt) (snd pt) r3 = Inr (A3 m1)" "grid_ok l ny nx m1"
      "get_col2 m1 (fst pt) (snd pt) = Some r3"
      "\<forall>r' c'. cell ny nx (r', c') \<noteq> (Some j, Some k) \<longrightarrow> get_col2 m1 r' c' = get_col2 m r' c'"
    by blast
  have cp: "convolve_point (Shape2 a b) flux True i pt d fl (Some (A3 m)) =
      Inr (d1, fl1, Some (A3 m1))"
    using convolve_point_InrI[OF d1(1) d1(3), where rs = True and st = "Some (A3 m)"
        and st' = "Some (A3 m1)" and pt = pt] m1(1) d1(2)
    by (simp add: put_state_def)
  have rest_ok: "list_all (\<lambda>(key, d). ring_length l d \<and> key = (outlet_y d, outlet_x d)) pd"
    and rest_dist: "distinct (map (\<lambda>(key, d). cell ny nx key) pd)"
    and fresh: "cell ny nx pt \<notin> set (map (\<lambda>(key, d). cell ny nx key) pd)"
    using Cons.prems(5,6) by (simp_all add: p)
  from Cons.IH[OF b[unfolded st1] m1(2) g1(1) g1(2) rest_ok rest_dist] obtain m' where
    m': "convolve_loop (Shape2 a b) flux True (Suc i) pd fl1 (Some (A3 m1)) =
           Inr (rest', fl', Some (A3 m'))" "grid_ok l ny nx m'"
      "\<forall>j < length pd. get_col2 m' (fst (fst (pd ! j))) (snd (fst (pd ! j))) =
                        ring (snd (rest' ! j))"
      "\<forall>r c. cell ny nx (r, c) \<notin> set (map (\<lambda>(key, d). cell ny nx key) pd) \<longrightarrow>
             get_col2 m' r c = get_col2 m1 r c"
    by blast
  have first: "get_col2 m' (fst pt) (snd pt) = Some r3"
    using m'(4) fresh m1(3) by simp
  have cols: "get_col2 m' (fst (fst ((p # pd) ! q))) (snd (fst ((p # pd) ! q))) =
      ring (snd (pd' ! q))" if "q < length (p # pd)" for q
  proof (cases q)
    case 0
    then show ?thesis using first c d1(2) by (simp add: p)
  next
    case (Suc q')
    then show ?thesis using m'(3) that c by simp
  qed
  have other: "get_col2 m' r c = get_col2 m r c"
    if "cell ny nx (r, c) \<notin> set (map (\<lambda>(key, d). cell ny nx key) (p # pd))" for r c
  proof -
    have "cell ny nx (r, c) \<noteq> (Some j, Some k)" using that jk by (auto simp: p)
    moreover have "cell ny nx (r, c) \<notin> set (map (\<lambda>(key, d). cell ny nx key) pd)"
      using that by simp
    ultimately show ?thesis using m'(4) m1(4) by simp
  qed
  show ?case
    using m'(1,2) cols other by (simp add: p cp c)
qed

lemma restore_grid:
  assumes "\<forall>j < length P. get_col2 m (fst (fst (P ! j))) (snd (fst (P ! j))) = ring (snd (P ! j))"
    "list_all (\<lambda>(key, d). ring d \<noteq> None) P"
  shows "load_state \<lparr>sf_Streamflow = A3 m, sf_xi = xs, sf_yi = ys, sf_time = tm\<rparr> (strip P) = Inr P"
proof -
  have col: "get_col2 m (fst key) (snd key) = ring d" if "(key, d) \<in> set P" for key d
  proof -
    from that obtain j where "j < length P" "P ! j = (key, d)" by (auto simp: in_set_conv_nth)
    then show ?thesis using assms(1) by force
  qed
  have all: "list_all (\<lambda>(key, d). get_col2 m (fst key) (snd key) \<noteq> None) (strip P)"
    using assms(2) col by (auto simp: list_all_iff strip_def)
  have "(key, d\<lparr>ring := None\<rparr>\<lparr>ring := get_col2 m (fst key) (snd key)\<rparr>) = (key, d)"
    if "(key, d) \<in> set P" for key d
    using col[OF that] by simp
  then have "map (\<lambda>(key, d). (key, d\<lparr>ring := get_col2 m (fst key) (snd key)\<rparr>)) (strip P) = P"
    unfolding strip_def map_map
    by (intro map_idI) auto
  then show ?thesis
    using all by (simp add: load_state_def load_grid_state_char)
qed

section \<open>Capture followed by restore\<close>

lemma keys_of_strip: "strip pd' = strip pd \<Longrightarrow> map fst pd' = map fst pd"
proof -
  assume a: "strip pd' = strip pd"
  have "map fst (strip q) = map fst q" for q :: registry
    by (simp add: strip_def case_prod_unfold o_def)
  then show ?thesis using a by metis
qed

lemma cells_of_keys:
  "map (\<lambda>(key, d). cell ny nx key) pd = map (cell ny nx) (map fst pd)"
  by (simp add: case_prod_unfold o_def)

lemma shape_ok_zeros: "shape_ok ny nx (replicate ny (replicate nx 0))"
  by (simp add: shape_ok_def list_all_iff)

lemma grid_ok_zeros: "grid_ok l ny nx (replicate l (replicate ny (replicate nx 0)))"
  by (simp add: grid_ok_def list_all_iff shape_ok_zeros)

lemma convolve_capture_grid:
  assumes "convolve pd td flux False (Shape2 ny nx) = Inr (pd', fl, sta, td')"
    "wf_registry l pd" "distinct (map (\<lambda>(key, d). cell ny nx key) pd)"
  shows "\<exists>m. convolve pd td flux True (Shape2 ny nx) =
               Inr (pd', fl, Some (A3 m),
                    td\<lparr>out_state_time :=
                         Some (map (\<lambda>t. t + time_step td) (time (snd (hd pd))))\<rparr>) \<and>
     (\<forall>j < length pd. get_col2 m (fst (fst (pd ! j))) (snd (fst (pd ! j))) =
                        ring (snd (pd' ! j)))"
proof -
  from convolve_InrD[OF assms(1)] obtain pta da pda where
    pd: "pd = (pta, da) # pda"
    and l: "convolve_loop (Shape2 ny nx) flux False 0 pd (zeros (Shape2 ny nx)) None =
              Inr (pd', fl, sta)"
    by auto
  have sta: "sta = None" using convolve_loop_keeps_state[OF l] .
  have rl: "list_all (\<lambda>(key, d). ring_length l d \<and> key = (outlet_y d, outlet_x d)) pd"
    using assms(2) by (auto simp: wf_registry_def list_all_iff)
  have la: "length (uh da) = l"
    using assms(2) by (simp add: wf_registry_def pd)
  have z: "zeros (Shape2 ny nx) = A2 (replicate ny (replicate nx 0))"
    by (simp add: zeros_def)
  from capture_grid[OF l[unfolded sta] grid_ok_zeros[of l ny nx] z shape_ok_zeros rl assms(3)]
  obtain m where m: "convolve_loop (Shape2 ny nx) flux True 0 pd (zeros (Shape2 ny nx))
        (Some (A3 (replicate l (replicate ny (replicate nx 0))))) = Inr (pd', fl, Some (A3 m))"
     "\<forall>j < length pd. get_col2 m (fst (fst (pd ! j))) (snd (fst (pd ! j))) =
                        ring (snd (pd' ! j))"
    by blast
  have "convolve pd td flux True (Shape2 ny nx) =
      Inr (pd', fl, Some (A3 m),
           td\<lparr>out_state_time := Some (map (\<lambda>t. t + time_step td) (time (snd (hd pd))))\<rparr>)"
    using convolve_InrI[where rs = True and shp = "Shape2 ny nx" and pta = pta and da = da
        and pda = pda and flux = flux and pd' = pd' and fl = fl and st = "Some (A3 m)" and td = td]
      m(1)
    by (simp add: pd zeros_state_def la)
  then show ?thesis using m(2) by auto
qed

lemma convolve_capture:
  assumes "convolve pd td flux False shp = Inr (pd', fl, sta, td')"
    "wf_registry l pd" "layout_ok shp pd"
  shows "\<exists>st. convolve pd td flux True shp =
               Inr (pd', fl, Some st,
                    td\<lparr>out_state_time :=
                         Some (map (\<lambda>t. t + time_step td) (time (snd (hd pd))))\<rparr>) \<and>
     load_state \<lparr>sf_Streamflow = st,
                 sf_xi = (case shp of Shape1 _ \<Rightarrow> map (\<lambda>(key, d). outlet_x d) pd'
                                     | Shape2 _ _ \<Rightarrow> []),
                 sf_yi = (case shp of Shape1 _ \<Rightarrow> map (\<lambda>(key, d). outlet_y d) pd'
                                     | Shape2 _ _ \<Rightarrow> []),
                 sf_time = tm\<rparr> (strip pd') = Inr pd'"
proof -
  have wf': "wf_registry l pd'" "strip pd' = strip pd" "length pd' = length pd"
    using wf_convolve[OF assms(1,2)] by simp_all
  have pos: "0 < l" using convolve_pos[OF assms(1,2)] .
  show ?thesis
  proof (cases shp)
    case (Shape1 n)
    then have n: "n = length pd" using assms(3) by (simp add: layout_ok_def)
    from convolve_capture_flat[OF assms(1)[unfolded Shape1] assms(2)] n
    obtain m where m: "convolve pd td flux True (Shape1 n) =
          Inr (pd', fl, Some (A2 m),
               td\<lparr>out_state_time := Some (map (\<lambda>t. t + time_step td) (time (snd (hd pd))))\<rparr>)"
       "flat_ok l n m" "\<forall>j < length pd. get_col1 m j = the (ring (snd (pd' ! j)))"
      by auto
    have "load_state \<lparr>sf_Streamflow = A2 m, sf_xi = map (\<lambda>(key, d). outlet_x d) pd',
                 sf_yi = map (\<lambda>(key, d). outlet_y d) pd', sf_time = tm\<rparr> (strip pd') = Inr pd'"
      using m(2,3) n wf'(3) by (intro restore_flat[OF wf'(1) _ pos]) simp_all
    then show ?thesis using m(1) Shape1 by auto
  next
    case (Shape2 ny nx)
    then have d: "distinct (map (\<lambda>(key, d). cell ny nx key) pd)"
      using assms(3) by (simp add: layout_ok_def)
    from convolve_capture_grid[OF assms(1)[unfolded Shape2] assms(2) d]
    obtain m where m: "convolve pd td flux True (Shape2 ny nx) =
          Inr (pd', fl, Some (A3 m),
               td\<lparr>out_state_time := Some (map (\<lambda>t. t + time_step td) (time (snd (hd pd))))\<rparr>)"
       "\<forall>j < length pd. get_col2 m (fst (fst (pd ! j))) (snd (fst (pd ! j))) =
                        ring (snd (pd' ! j))"
      by auto
    have keys: "map fst pd' = map fst pd" using keys_of_strip[OF wf'(2)] .
    have k: "fst (pd' ! j) = fst (pd ! j)" if "j < length pd" for j
      using keys that wf'(3) by (metis nth_map)
    have cols: "\<forall>j < length pd'. get_col2 m (fst (fst (pd' ! j))) (snd (fst (pd' ! j))) =
                        ring (snd (pd' ! j))"
      using m(2) k wf'(3) by simp
    have some: "list_all (\<lambda>(key, d). ring d \<noteq> None) pd'"
      using wf'(1) by (auto simp: wf_registry_def list_all_iff ring_length_def split: option.splits)
    have "load_state \<lparr>sf_Streamflow = A3 m, sf_xi = [], sf_yi = [], sf_time = tm\<rparr> (strip pd') =
        Inr pd'"
      using restore_grid[OF cols some] .
    then show ?thesis using m(1) Shape2 by auto
  qed
qed

section \<open>The registry that make\_point\_dict builds\<close>

lemma strip_idem: "strip (strip pd) = strip pd"
  by (simp add: strip_def case_prod_unfold o_def)

lemma keys_ok_strip: "keys_ok (strip pd) = keys_ok pd"
proof -
  have "map fst (strip pd) = map fst pd"
    by (simp add: strip_def case_prod_unfold o_def)
  moreover have "list_all (\<lambda>(key, d). key = (outlet_y d, outlet_x d)) (strip pd) =
      list_all (\<lambda>(key, d). key = (outlet_y d, outlet_x d)) pd"
    by (simp add: strip_def list_all_iff case_prod_unfold)
  ultimately show ?thesis by (simp add: keys_ok_def)
qed

lemma od_set_keys: "set (map fst (od_set pd k v)) = insert k (set (map fst pd))"
proof (induction pd)
  case Nil
  then show ?case by simp
next
  case (Cons p pd)
  obtain k' v' where p: "p = (k', v')" by (cases p)
  show ?case
  proof (cases "k' = k")
    case True
    then show ?thesis by (simp add: p)
  next
    case False
    then show ?thesis using Cons.IH by (simp add: p insert_commute)
  qed
qed

lemma od_set_distinct: "distinct (map fst pd) \<Longrightarrow> distinct (map fst (od_set pd k v))"
proof (induction pd)
  case Nil
  then show ?case by simp
next
  case (Cons p pd)
  obtain k' v' where p: "p = (k', v')" by (cases p)
  show ?case
  proof (cases "k' = k")
    case True
    then show ?thesis using Cons.prems p by simp
  next
    case False
    have "k' \<notin> set (map fst (od_set pd k v))"
      using Cons.prems False p unfolding od_set_keys by simp
    then show ?thesis using Cons p False by simp
  qed
qed

lemma od_set_all:
  "list_all Q pd \<Longrightarrow> Q (k, v) \<Longrightarrow> list_all Q (od_set pd k v)"
  by (induction pd) auto

lemma keys_ok_od_set:
  assumes "keys_ok pd"
  shows "keys_ok (od_set pd (outlet_y d, outlet_x d) d)"
  using assms od_set_distinct[of pd] 
    od_set_all[of "\<lambda>(key, d). key = (outlet_y d, outlet_x d)" pd "(outlet_y d, outlet_x d)" d]
  by (simp add: keys_ok_def)

lemma strip_od_set:
  "strip (od_set pd k d) = od_set (strip pd) k (d\<lparr>ring := None\<rparr>)"
  by (induction pd) (auto simp: strip_def)

lemma make_point_warm:
  "make_point f area od rho False =
     (case make_point f area od rho True of Inl e \<Rightarrow> Inl e | Inr d \<Rightarrow> Inr (d\<lparr>ring := None\<rparr>))"
  by (simp add: make_point_def split: option.splits sum.splits)

lemma make_points_warm:
  "make_points ufs area od rho False (strip pd) cnt =
     (case make_points ufs area od rho True pd cnt of
        Inl e \<Rightarrow> Inl e
      | Inr (P, c) \<Rightarrow> Inr (strip P, c))"
proof (induction ufs arbitrary: pd cnt)
  case Nil
  then show ?case by simp
next
  case (Cons f ufs)
  show ?case
  proof (cases "make_point f area od rho True")
    case (Inl e)
    then show ?thesis by (simp add: make_point_warm)
  next
    case (Inr d)
    have "make_points ufs area od rho False
            (od_set (strip pd) (outlet_y d, outlet_x d) (d\<lparr>ring := None\<rparr>))
            (cnt\<lparr>points := points cnt + 1\<rparr>) =
          (case make_points ufs area od rho True (od_set pd (outlet_y d, outlet_x d) d)
                  (cnt\<lparr>points := points cnt + 1\<rparr>) of
             Inl e \<Rightarrow> Inl e | Inr (P, c) \<Rightarrow> Inr (strip P, c))"
      using Cons.IH[of "od_set pd (outlet_y d, outlet_x d) d"] by (simp add: strip_od_set)
    then show ?thesis using Inr by (simp add: make_point_warm)
  qed
qed

lemma make_points_keys_ok:
  assumes "make_points ufs area od rho b pd cnt = Inr (P, c)" "keys_ok pd"
  shows "keys_ok P"
  using assms
proof (induction ufs arbitrary: pd cnt)
  case Nil
  then show ?case by simp
next
  case (Cons f ufs)
  from Cons.prems(1) obtain d where
    d: "make_point f area od rho b = Inr d"
    and r: "make_points ufs area od rho b (od_set pd (outlet_y d, outlet_x d) d)
              (cnt\<lparr>points := points cnt + 1\<rparr>) = Inr (P, c)"
    by (auto split: sum.splits)
  show ?case using Cons.IH[OF r keys_ok_od_set[OF Cons.prems(2)]] .
qed

lemma strip_od_set_ring:
  assumes "map_of pd k = Some d"
  shows "strip (od_set pd k (d\<lparr>ring := x\<rparr>)) = strip pd"
  using assms by (induction pd) (auto simp: strip_def)

lemma load_array_state_strip:
  assumes "load_array_state m xs ys is pd = Inr pd'"
  shows "strip pd' = strip pd"
  using assms
proof (induction "is" arbitrary: pd)
  case Nil
  then show ?case by simp
next
  case (Cons i "is")
  from Cons.prems obtain d where
    d: "map_of pd (ys ! i, xs ! i) = Some d"
    and r: "load_array_state m xs ys is
              (od_set pd (ys ! i, xs ! i) (d\<lparr>ring := Some (get_col1 m i)\<rparr>)) = Inr pd'"
    by (auto split: if_splits option.splits)
  show ?case using Cons.IH[OF r] strip_od_set_ring[OF d] by simp
qed

lemma load_grid_state_strip:
  assumes "load_grid_state m pd = Inr pd'"
  shows "strip pd' = strip pd"
  using assms
  by (induction pd arbitrary: pd') (auto simp: strip_def split: option.splits sum.splits)

lemma load_state_strip:
  assumes "load_state sf pd = Inr pd'"
  shows "strip pd' = strip pd"
  using assms load_array_state_strip load_grid_state_strip
  by (auto simp: load_state_def split: ndarray.splits)

lemma keys_ok_Nil: "keys_ok []"
  by (simp add: keys_ok_def)

lemma strip_Nil: "strip [] = []"
  by (simp add: strip_def)

lemma make_point_dict_InrD:
  assumes "make_point_dict ufs area od cnt rho ini = Inr (pd, od', cnt', ms)"
  shows "make_points ufs area od rho False [] (cnt\<lparr>points := 0\<rparr>) = Inr (strip pd, cnt') \<and>
     keys_ok pd \<and>
     outlet_xs od' = map (\<lambda>(key, d). outlet_x d) pd \<and>
     outlet_ys od' = map (\<lambda>(key, d). outlet_y d) pd"
proof (cases ini)
  case None
  from assms have a: "make_points ufs area od rho True [] (cnt\<lparr>points := 0\<rparr>) = Inr (pd, cnt')"
    and b: "outlet_xs od' = map (\<lambda>(key, d). outlet_x d) pd"
           "outlet_ys od' = map (\<lambda>(key, d). outlet_y d) pd"
    by (auto simp: make_point_dict_def None split: sum.splits prod.splits)
  have "make_points ufs area od rho False [] (cnt\<lparr>points := 0\<rparr>) = Inr (strip pd, cnt')"
    using make_points_warm[of ufs area od rho "[]" "cnt\<lparr>points := 0\<rparr>"] a
    by (simp add: strip_Nil)
  then show ?thesis
    using make_points_keys_ok[OF a keys_ok_Nil] b by simp
next
  case (Some sf)
  from assms obtain Q where
    a: "make_points ufs area od rho False [] (cnt\<lparr>points := 0\<rparr>) = Inr (Q, cnt')"
    and l: "load_state sf Q = Inr pd"
    and b: "outlet_xs od' = map (\<lambda>(key, d). outlet_x d) pd"
           "outlet_ys od' = map (\<lambda>(key, d). outlet_y d) pd"
    by (auto simp: make_point_dict_def Some split: sum.splits prod.splits)
  have "\<exists>P. Q = strip P"
    using make_points_warm[of ufs area od rho "[]" "cnt\<lparr>points := 0\<rparr>"] a
    by (auto simp: strip_Nil split: sum.splits prod.splits)
  then have q: "strip Q = Q" using strip_idem by auto
  have s: "strip pd = Q" using load_state_strip[OF l] q by simp
  have "keys_ok Q" using make_points_keys_ok[OF a keys_ok_Nil] .
  then have "keys_ok pd" using keys_ok_strip[of pd] s by simp
  then show ?thesis using a s b by simp
qed

lemma make_point_dict_warm:
  assumes "make_points ufs area od rho False [] (cnt\<lparr>points := 0\<rparr>) = Inr (Q, cnt')"
    "load_state sf Q = Inr pdr"
  shows "\<exists>odr. make_point_dict ufs area od cnt rho (Some sf) =
     Inr (pdr, odr, cnt', [ReadingInitialState])"
  using assms by (simp add: make_point_dict_def)

lemma wf_registryI:
  assumes "keys_ok pd" "list_all (\<lambda>(key, d). length (uh d) = l \<and> ring_length l d) pd"
  shows "wf_registry l pd"
  using assms by (auto simp: wf_registry_def keys_ok_def list_all_iff)

lemma layout_ok_keys:
  assumes "map fst pd' = map fst pd"
  shows "layout_ok shp pd' = layout_ok shp pd"
proof -
  have "length pd' = length pd" using assms by (metis length_map)
  then show ?thesis
    using assms by (simp add: layout_ok_def cells_of_keys split: shape.splits)
qed

section \<open>Restart\<close>

text \<open>
  Claim C3, amended. Let the registry be built by \<^verbatim>\<open>make_point_dict\<close>, all its unit hydrographs
  and rings have the same length \<open>l\<close>, and the shape fit the registry. If the timesteps
  0 to n run through, then for every \<open>t\<close> below n the timesteps 0 to t run with a capture at
  \<open>t\<close>, the state file written from it is accepted by \<^verbatim>\<open>make_point_dict\<close> for the same unit
  hydrograph files and yields the registry reached after timestep \<open>t\<close>, and the remaining
  timesteps from there emit what the uninterrupted run emits.
\<close>

theorem restart_equivalence:
  assumes "make_point_dict uh_files area od cnt rho ini = Inr (pd, od', cnt', ms)"
    and "list_all (\<lambda>(key, d). length (uh d) = l \<and> ring_length l d) pd"
    and "layout_ok shp pd"
    and "t < length fluxes"
    and "convolve_seq pd td fluxes shp = Inr (pdn, outs)"
  shows "\<exists>pd1 outs1 pd2 fl st td2 sf odr msr outs2.
     convolve_seq pd td (take t fluxes) shp = Inr (pd1, outs1) \<and>
     convolve pd1 tda (fluxes ! t) True shp = Inr (pd2, fl, Some st, td2) \<and>
     write_output name st od' td2 True shp = StateFile name sf \<and>
     make_point_dict uh_files area od cnt rho (Some sf) = Inr (pd2, odr, cnt', msr) \<and>
     convolve_seq pd2 tdb (drop (Suc t) fluxes) shp = Inr (pdn, outs2) \<and>
     outs = outs1 @ fl # outs2"
proof -
  from make_point_dict_InrD[OF assms(1)] have
    mp: "make_points uh_files area od rho False [] (cnt\<lparr>points := 0\<rparr>) = Inr (strip pd, cnt')"
    and ko: "keys_ok pd"
    and xs: "outlet_xs od' = map (\<lambda>(key, d). outlet_x d) pd"
    and ys: "outlet_ys od' = map (\<lambda>(key, d). outlet_y d) pd"
    by simp_all
  have wf: "wf_registry l pd" using wf_registryI[OF ko assms(2)] .
  have split: "fluxes = take t fluxes @ (fluxes ! t # drop (Suc t) fluxes)"
    using assms(4) by (simp add: id_take_nth_drop[symmetric])
  have "convolve_seq pd td (take t fluxes @ (fluxes ! t # drop (Suc t) fluxes)) shp =
      Inr (pdn, outs)"
    using assms(5) split by simp
  then obtain pd1 outs1 outs' where
    a: "convolve_seq pd td (take t fluxes) shp = Inr (pd1, outs1)"
    and b: "convolve_seq pd1 td (fluxes ! t # drop (Suc t) fluxes) shp = Inr (pdn, outs')"
    and o1: "outs = outs1 @ outs'"
    unfolding convolve_seq_append by (auto split: sum.splits prod.splits)
  from b obtain pd2 fl sta td2 outs2 where
    c: "convolve pd1 td (fluxes ! t) False shp = Inr (pd2, fl, sta, td2)"
    and d: "convolve_seq pd2 td2 (drop (Suc t) fluxes) shp = Inr (pdn, outs2)"
    and o2: "outs' = fl # outs2"
    by (auto split: sum.splits prod.splits)
  have wf1: "wf_registry l pd1" "strip pd1 = strip pd" "length pd1 = length pd"
    using wf_convolve_seq[OF a wf] by simp_all
  have lo1: "layout_ok shp pd1"
    using layout_ok_keys[OF keys_of_strip[OF wf1(2)]] assms(3) by simp
  have c': "convolve pd1 tda (fluxes ! t) False shp =
      Inr (pd2, fl, sta, tda\<lparr>out_state_time := None\<rparr>)"
    using convolve_td[of pd1 tda "fluxes ! t" shp td] c by simp
  have wf2: "strip pd2 = strip pd1"
    using wf_convolve[OF c wf1(1)] by simp
  let ?td2 = "tda\<lparr>out_state_time :=
      Some (map (\<lambda>t. t + time_step tda) (time (snd (hd pd1))))\<rparr>"
  let ?sf = "\<lambda>st. \<lparr>sf_Streamflow = st,
      sf_xi = (case shp of Shape1 _ \<Rightarrow> map (\<lambda>(key, d). outlet_x d) pd2 | Shape2 _ _ \<Rightarrow> []),
      sf_yi = (case shp of Shape1 _ \<Rightarrow> map (\<lambda>(key, d). outlet_y d) pd2 | Shape2 _ _ \<Rightarrow> []),
      sf_time = out_state_time ?td2\<rparr>"
  from convolve_capture[OF c' wf1(1) lo1, of "out_state_time ?td2"] obtain st where
    cap: "convolve pd1 tda (fluxes ! t) True shp = Inr (pd2, fl, Some st, ?td2)"
    and res: "load_state (?sf st) (strip pd2) = Inr pd2"
    by blast
  have s2: "strip pd2 = strip pd" using wf2 wf1(2) by simp
  have xs2: "map (\<lambda>(key, d). outlet_x d) pd2 = outlet_xs od'"
    and ys2: "map (\<lambda>(key, d). outlet_y d) pd2 = outlet_ys od'"
    using coords_strip[of pd2] coords_strip[of pd] s2 xs ys by simp_all
  have w: "write_output name st od' ?td2 True shp = StateFile name (?sf st)"
    by (cases shp) (simp_all add: write_output_def xs2 ys2)
  from make_point_dict_warm[OF mp res[unfolded s2]] obtain odr where
    warm: "make_point_dict uh_files area od cnt rho (Some (?sf st)) =
      Inr (pd2, odr, cnt', [ReadingInitialState])"
    by blast
  have d': "convolve_seq pd2 tdb (drop (Suc t) fluxes) shp = Inr (pdn, outs2)"
    using d convolve_seq_td[of pd2 tdb _ shp td2] by simp
  show ?thesis
    using a cap w warm d' o1 o2 by blast
qed

text \<open>
  Claim C3, as stated, fails: with outlets of lengths 3 and 2 the two timesteps run through
  without a capture, but the capture at timestep 0 raises ValueError, since \<^verbatim>\<open>out_state\<close> has
  the three rows of the first outlet and the ring of the second has length 2.
\<close>

theorem mixed_lengths_counterexample:
  "make_point_dict [c6_uh, c3_uh_short] [[1, 1], [1, 1]] c10_out_dict counts0 1000 None =
     Inr ([((0, 0), c1_outlet), ((1, 1), c3_short)],
          c10_out_dict\<lparr>lats := [0, 0], lons := [0, 0], outlet_xs := [0, 1],
                        outlet_ys := [0, 1]\<rparr>,
          counts0\<lparr>points := 2\<rparr>, []) \<and>
   convolve_seq [((0, 0), c1_outlet), ((1, 1), c3_short)] td0
       [[[10, 10], [10, 10]], [[0, 0], [0, 0]]] (Shape1 2) =
     Inr ([((0, 0), c1_outlet\<lparr>ring := Some [2, 0, 0]\<rparr>), ((1, 1), c3_short)],
          [A1 [5, 5], A1 [3, 5]]) \<and>
   convolve [((0, 0), c1_outlet), ((1, 1), c3_short)] td0 [[10, 10], [10, 10]] True (Shape1 2) =
     Inl (ValueError,
          [((0, 0), c1_outlet\<lparr>ring := Some [3, 2, 0]\<rparr>),
           ((1, 1), c3_short\<lparr>ring := Some [5, 0]\<rparr>)])"
proof -
  have a: "make_point_dict [c6_uh, c3_uh_short] [[1, 1], [1, 1]] c10_out_dict counts0 1000 None =
     Inr ([((0, 0), c1_outlet), ((1, 1), c3_short)],
          c10_out_dict\<lparr>lats := [0, 0], lons := [0, 0], outlet_xs := [0, 1],
                        outlet_ys := [0, 1]\<rparr>,
          counts0\<lparr>points := 2\<rparr>, [])"
    by (simp add: make_point_dict_def make_point_def make_uh_def rows_mul_def bmul_def gather_def
        grid_at_def np_index_def broadcast_def c6_uh_def c8_uh_b_def c3_uh_short_def
        c10_out_dict_def counts0_def c1_outlet_def c3_short_def)
  have b: "convolve_seq [((0, 0), c1_outlet), ((1, 1), c3_short)] td0
       [[[10, 10], [10, 10]], [[0, 0], [0, 0]]] (Shape1 2) =
     Inr ([((0, 0), c1_outlet\<lparr>ring := Some [2, 0, 0]\<rparr>), ((1, 1), c3_short)],
          [A1 [5, 5], A1 [3, 5]])"
    by (simp add: convolve_def convolve_point_def c1_outlet_def c3_short_def td0_def array_prims
          numeral_2_eq_2)
  have c: "convolve [((0, 0), c1_outlet), ((1, 1), c3_short)] td0 [[10, 10], [10, 10]] True
       (Shape1 2) =
     Inl (ValueError,
          [((0, 0), c1_outlet\<lparr>ring := Some [3, 2, 0]\<rparr>),
           ((1, 1), c3_short\<lparr>ring := Some [5, 0]\<rparr>)])"
    by (simp add: convolve_def convolve_point_def c1_outlet_def c3_short_def td0_def array_prims
          numeral_2_eq_2 numeral_3_eq_3)
  from a b c show ?thesis by (intro conjI)
qed

theorem restart_equivalence_witness:
  "make_point_dict [c6_uh] [[1]] c10_out_dict counts0 1000 None =
     Inr ([((0, 0), c1_outlet)], c10_out_dict, counts0\<lparr>points := 1\<rparr>, []) \<and>
   list_all (\<lambda>(key, d). length (uh d) = 3 \<and> ring_length 3 d)
     ([((0, 0), c1_outlet)] :: registry) \<and>
   layout_ok (Shape1 1) [((0, 0), c1_outlet)] \<and>
   convolve_seq [((0, 0), c1_outlet)] td0 [[[10]], [[0]]] (Shape1 1) =
     Inr ([((0, 0), c1_outlet\<lparr>ring := Some [2, 0, 0]\<rparr>)], [A1 [5], A1 [3]]) \<and>
   (\<exists>pd1 outs1 pd2 fl st td2 sf odr msr outs2.
     convolve_seq [((0, 0), c1_outlet)] td0 (take 0 [[[10]], [[0]]]) (Shape1 1) =
       Inr (pd1, outs1) \<and>
     convolve pd1 td0 ([[[10]], [[0]]] ! 0) True (Shape1 1) = Inr (pd2, fl, Some st, td2) \<and>
     write_output ''state.nc'' st c10_out_dict td2 True (Shape1 1) = StateFile ''state.nc'' sf \<and>
     make_point_dict [c6_uh] [[1]] c10_out_dict counts0 1000 (Some sf) =
       Inr (pd2, odr, counts0\<lparr>points := 1\<rparr>, msr) \<and>
     convolve_seq pd2 td0 (drop (Suc 0) [[[10]], [[0]]]) (Shape1 1) =
       Inr ([((0, 0), c1_outlet\<lparr>ring := Some [2, 0, 0]\<rparr>)], outs2) \<and>
     [A1 [5], A1 [3]] = outs1 @ fl # outs2)"
proof -
  have h1: "make_point_dict [c6_uh] [[1]] c10_out_dict counts0 1000 None =
     Inr ([((0, 0), c1_outlet)], c10_out_dict, counts0\<lparr>points := 1\<rparr>, [])"
    by (simp add: make_point_dict_def make_point_def make_uh_def rows_mul_def bmul_def gather_def
        grid_at_def np_index_def broadcast_def c6_uh_def c10_out_dict_def counts0_def
        c1_outlet_def)
  have h2: "list_all (\<lambda>(key, d). length (uh d) = 3 \<and> ring_length 3 d)
     ([((0, 0), c1_outlet)] :: registry)"
    by (simp add: ring_length_def c1_outlet_def)
  have h3: "layout_ok (Shape1 1) [((0, 0), c1_outlet)]"
    by (simp add: layout_ok_def)
  have h4: "(0::nat) < length [[[10::real]], [[0]]]" by simp
  have h5: "convolve_seq [((0, 0), c1_outlet)] td0 [[[10]], [[0]]] (Shape1 1) =
     Inr ([((0, 0), c1_outlet\<lparr>ring := Some [2, 0, 0]\<rparr>)], [A1 [5], A1 [3]])"
    by (simp add: convolve_def convolve_point_def c1_outlet_def td0_def array_prims)
  show ?thesis
    using h1 h2 h3 h5
      restart_equivalence[OF h1 h2 h3 h4 h5, where tda = td0 and tdb = td0
        and name = "''state.nc''"]
    by blast
qed

section \<open>The time of a snapshot\<close>

text \<open>
  Claim C9, as stated, fails: the time axis of the second outlet starts at 5 and the input
  time is 100, but the only time recorded with the snapshot is [100, 101, 102], from the
  first outlet; nothing in it is 105.
\<close>

theorem snapshot_time_counterexample:
  "convolve [((0, 0), c1_outlet), ((1, 1), c9_late)] c9_time_dict [[10, 10], [10, 10]] True
       (Shape1 2) =
     Inr ([((0, 0), c1_outlet\<lparr>ring := Some [3, 2, 0]\<rparr>),
           ((1, 1), c9_late\<lparr>ring := Some [3, 2, 0]\<rparr>)],
          A1 [5, 5], Some (A2 [[3, 3], [2, 2], [0, 0]]),
          c9_time_dict\<lparr>out_state_time := Some [100, 101, 102]\<rparr>) \<and>
   time_step c9_time_dict + hd (time c9_late) = 105"
  by (simp add: convolve_def convolve_point_def c1_outlet_def c9_late_def c9_time_dict_def
        td0_def array_prims numeral_2_eq_2 numeral_3_eq_3)

text \<open>
  Claim C9, amended. A capture records one time axis for the whole snapshot: the time axis
  of the first outlet of the registry, shifted by the time of the input. In a well-formed
  registry whose shape fits, the snapshot holds for every outlet its ring after the rotation:
  column \<open>j\<close> of a flat state, the column at the key of the outlet of a gridded one.
\<close>

theorem snapshot_time_of_first_outlet:
  assumes "convolve pd td flux True shp = Inr (pd', fl, st, td')"
  shows "pd \<noteq> [] \<and>
    out_state_time td' = Some (map (\<lambda>t. t + time_step td) (time (snd (hd pd)))) \<and>
    (wf_registry l pd \<and> layout_ok shp pd \<longrightarrow>
       (case shp of
          Shape1 n \<Rightarrow>
            \<exists>m. st = Some (A2 m) \<and>
                (\<forall>j < length pd. ring (snd (pd' ! j)) = Some (get_col1 m j))
        | Shape2 ny nx \<Rightarrow>
            \<exists>m. st = Some (A3 m) \<and>
                (\<forall>j < length pd. ring (snd (pd' ! j)) =
                   get_col2 m (fst (fst (pd ! j))) (snd (fst (pd ! j))))))"
proof -
  from convolve_InrD[OF assms] obtain pta da pda where
    pd: "pd = (pta, da) # pda"
    and l: "convolve_loop shp flux True 0 pd (zeros shp)
              (Some (zeros_state (length (uh da)) shp)) = Inr (pd', fl, st)"
    and td': "td' = td\<lparr>out_state_time := Some (map (\<lambda>t. t + time_step td) (time da))\<rparr>"
    by auto
  have ne: "pd \<noteq> []" and tm: "out_state_time td' =
      Some (map (\<lambda>t. t + time_step td) (time (snd (hd pd))))"
    using pd td' by simp_all
  have f: "convolve pd td flux False shp = Inr (pd', fl, None, td\<lparr>out_state_time := None\<rparr>)"
    using convolve_InrI[where rs = False and shp = shp and pta = pta and da = da and pda = pda
        and flux = flux and pd' = pd' and fl = fl and st = None and td = td]
      convolve_loop_without_state[OF l] by (simp add: pd)
  have rings: "case shp of
          Shape1 n \<Rightarrow>
            \<exists>m. st = Some (A2 m) \<and>
                (\<forall>j < length pd. ring (snd (pd' ! j)) = Some (get_col1 m j))
        | Shape2 ny nx \<Rightarrow>
            \<exists>m. st = Some (A3 m) \<and>
                (\<forall>j < length pd. ring (snd (pd' ! j)) =
                   get_col2 m (fst (fst (pd ! j))) (snd (fst (pd ! j))))"
    if wf: "wf_registry l pd" and lo: "layout_ok shp pd"
  proof (cases shp)
    case (Shape1 n)
    have n: "length pd \<le> n" using lo Shape1 by (simp add: layout_ok_def)
    from convolve_capture_flat[OF f[unfolded Shape1] wf n] obtain m where
      m: "convolve pd td flux True (Shape1 n) =
            Inr (pd', fl, Some (A2 m),
                 td\<lparr>out_state_time := Some (map (\<lambda>t. t + time_step td) (time (snd (hd pd))))\<rparr>)"
        "\<forall>j < length pd. get_col1 m j = the (ring (snd (pd' ! j)))"
      by blast
    have st: "st = Some (A2 m)" using m(1) assms Shape1 by simp
    have wf': "wf_registry l pd'" "length pd' = length pd"
      using wf_convolve[OF assms wf] by simp_all
    have "ring (snd (pd' ! j)) = Some (get_col1 m j)" if "j < length pd" for j
    proof -
      obtain k d where kd: "pd' ! j = (k, d)" by (cases "pd' ! j")
      have "ring_length l d"
        using wf'(1) that wf'(2) kd by (auto simp: wf_registry_def list_all_length)
      then obtain r where "ring d = Some r"
        by (auto simp: ring_length_def split: option.splits)
      then show ?thesis using m(2) that kd by simp
    qed
    then show ?thesis using st Shape1 by simp
  next
    case (Shape2 ny nx)
    have d: "distinct (map (\<lambda>(key, d). cell ny nx key) pd)"
      using lo Shape2 by (simp add: layout_ok_def)
    from convolve_capture_grid[OF f[unfolded Shape2] wf d] obtain m where
      m: "convolve pd td flux True (Shape2 ny nx) =
            Inr (pd', fl, Some (A3 m),
                 td\<lparr>out_state_time := Some (map (\<lambda>t. t + time_step td) (time (snd (hd pd))))\<rparr>)"
        "\<forall>j < length pd. get_col2 m (fst (fst (pd ! j))) (snd (fst (pd ! j))) =
                        ring (snd (pd' ! j))"
      by blast
    have st: "st = Some (A3 m)" using m(1) assms Shape2 by simp
    show ?thesis using st m(2) Shape2 by simp
  qed
  show ?thesis using ne tm rings by blast
qed

theorem snapshot_time_of_first_outlet_witness:
  "convolve [((0, 0), c1_outlet), ((1, 1), c9_late)] c9_time_dict [[10, 10], [10, 10]] True
       (Shape1 2) =
     Inr ([((0, 0), c1_outlet\<lparr>ring := Some [3, 2, 0]\<rparr>),
           ((1, 1), c9_late\<lparr>ring := Some [3, 2, 0]\<rparr>)],
          A1 [5, 5], Some (A2 [[3, 3], [2, 2], [0, 0]]),
          c9_time_dict\<lparr>out_state_time := Some [100, 101, 102]\<rparr>) \<and>
   wf_registry 3 [((0, 0), c1_outlet), ((1, 1), c9_late)] \<and>
   layout_ok (Shape1 2) [((0, 0), c1_outlet), ((1, 1), c9_late)] \<and>
   out_state_time (c9_time_dict\<lparr>out_state_time := Some [100, 101, 102]\<rparr>) =
     Some (map (\<lambda>t. t + time_step c9_time_dict)
            (time (snd (hd ([((0, 0), c1_outlet), ((1, 1), c9_late)] :: registry))))) \<and>
   (\<exists>m. Some (A2 [[3, 3], [2, 2], [0, 0]]) = Some (A2 m) \<and>
      (\<forall>j < length ([((0, 0), c1_outlet), ((1, 1), c9_late)] :: registry).
         ring (snd (([((0, 0), c1_outlet\<lparr>ring := Some [3, 2, 0]\<rparr>),
                      ((1, 1), c9_late\<lparr>ring := Some [3, 2, 0]\<rparr>)] :: registry) ! j)) =
         Some (get_col1 m j)))"
proof -
  have h: "convolve [((0, 0), c1_outlet), ((1, 1), c9_late)] c9_time_dict [[10, 10], [10, 10]]
       True (Shape1 2) =
     Inr ([((0, 0), c1_outlet\<lparr>ring := Some [3, 2, 0]\<rparr>),
           ((1, 1), c9_late\<lparr>ring := Some [3, 2, 0]\<rparr>)],
          A1 [5, 5], Some (A2 [[3, 3], [2, 2], [0, 0]]),
          c9_time_dict\<lparr>out_state_time := Some [100, 101, 102]\<rparr>)"
    by (simp add: convolve_def convolve_point_def c1_outlet_def c9_late_def c9_time_dict_def
          td0_def array_prims numeral_2_eq_2 numeral_3_eq_3)
  have w: "wf_registry 3 [((0, 0), c1_outlet), ((1, 1), c9_late)]"
    by (simp add: wf_registry_def ring_length_def c1_outlet_def c9_late_def)
  have lo: "layout_ok (Shape1 2) [((0, 0), c1_outlet), ((1, 1), c9_late)]"
    by (simp add: layout_ok_def)
  note p = snapshot_time_of_first_outlet[OF h, of 3]
  have t: "out_state_time (c9_time_dict\<lparr>out_state_time := Some [100, 101, 102]\<rparr>) =
     Some (map (\<lambda>t. t + time_step c9_time_dict)
            (time (snd (hd ([((0, 0), c1_outlet), ((1, 1), c9_late)] :: registry)))))"
    by (rule p[THEN conjunct2, THEN conjunct1])
  have r: "\<exists>m. Some (A2 [[3, 3], [2, 2], [0, 0]]) = Some (A2 m) \<and>
      (\<forall>j < length ([((0, 0), c1_outlet), ((1, 1), c9_late)] :: registry).
         ring (snd (([((0, 0), c1_outlet\<lparr>ring := Some [3, 2, 0]\<rparr>),
                      ((1, 1), c9_late\<lparr>ring := Some [3, 2, 0]\<rparr>)] :: registry) ! j)) =
         Some (get_col1 m j))"
    using p[THEN conjunct2, THEN conjunct2, THEN mp, OF conjI[OF w lo]]
    by (simp only: shape.case)
  from h w lo t r show ?thesis by (intro conjI)
qed

end
